theory Spec2Isabelle
  imports Complex_Main "HOL-Library.Multiset"
begin

section \<open>Geometry primitives (include/Rect3d.h, src/Rect3d.cpp)\<close>

text \<open>
  The C++ \<^verbatim>\<open>int\<close> fields are modelled as mathematical integers. The sums and
  differences of coordinates and extents are taken exactly: the model speaks about runs
  in which they stay inside the 32-bit range. The products of the source (the sort key
  of the guillotine packer, the volume scores, the area comparisons of the split rules
  and the occupancy) reach that range for containers of ordinary size, so they are
  modelled as the compiled code computes them: in 32-bit two's complement, \<open>int32\<close>
  below; signed overflow is undefined behaviour for the C++ standard. The three structs
  share their field names; here \<^verbatim>\<open>FreeRect3d\<close> extends \<^verbatim>\<open>Rect3d\<close>, so that one
  selector reads the common fields of both. The fields of \<^verbatim>\<open>RectSize3d\<close> are reached
  by their qualified names.
\<close>

text \<open>The value of an \<^verbatim>\<open>int\<close> expression whose exact value is \<open>v\<close>.\<close>

definition int32 :: "int \<Rightarrow> int" where
  "int32 v = (v + 2147483648) mod 4294967296 - 2147483648"

text \<open>The conversion to \<^verbatim>\<open>unsigned long\<close>, of 64 bits as on an LP64 platform.\<close>

definition uint64 :: "int \<Rightarrow> int" where
  "uint64 v = v mod 18446744073709551616"

record RectSize3d =
  width :: int
  height :: int
  depth :: int

record Rect3d =
  x :: int
  y :: int
  z :: int
  width :: int
  height :: int
  depth :: int

record FreeRect3d = Rect3d +
  supportx0 :: int
  supportx1 :: int
  supporty0 :: int
  supporty1 :: int

text \<open>\<^verbatim>\<open>memset(&bestNode, 0, sizeof(Rect3d))\<close>\<close>

definition zeroRect :: Rect3d where
  "zeroRect = \<lparr>x = 0, y = 0, z = 0, width = 0, height = 0, depth = 0\<rparr>"

definition IsContainedIn3d :: "Rect3d \<Rightarrow> Rect3d \<Rightarrow> bool" where
  "IsContainedIn3d a b \<longleftrightarrow>
     x a \<ge> x b \<and> y a \<ge> y b
     \<and> x a + width a \<le> x b + width b
     \<and> y a + height a \<le> y b + height b
     \<and> z a + depth a \<le> z b + depth b"

definition IsContainedInFree3d :: "FreeRect3d \<Rightarrow> FreeRect3d \<Rightarrow> bool" where
  "IsContainedInFree3d a b \<longleftrightarrow>
     x a \<ge> x b \<and> y a \<ge> y b
     \<and> x a + width a \<le> x b + width b
     \<and> y a + height a \<le> y b + height b
     \<and> z a \<ge> z b \<and> z a + depth a \<ge> z b + depth b"

subsection \<open>DisjointRectCollection3d\<close>

text \<open>The static two-box test \<^verbatim>\<open>Disjoint(const Rect3d &a, const Rect3d &b)\<close>.\<close>

definition Disjoint :: "Rect3d \<Rightarrow> Rect3d \<Rightarrow> bool" where
  "Disjoint a b \<longleftrightarrow>
     x a + width a \<le> x b \<or>
     x b + width b \<le> x a \<or>
     y a + height a \<le> y b \<or>
     y b + height b \<le> y a \<or>
     z a + depth a \<le> z b \<or>
     z b + depth b \<le> z a"

text \<open>The member test \<^verbatim>\<open>Disjoint(const Rect3d &r) const\<close> against the stored boxes.\<close>

definition DisjointAll :: "Rect3d list \<Rightarrow> Rect3d \<Rightarrow> bool" where
  "DisjointAll rects r \<longleftrightarrow>
     (if width r = 0 \<or> height r = 0 \<or> depth r = 0 then True
      else list_all (\<lambda>a. Disjoint a r) rects)"

text \<open>\<^verbatim>\<open>Add\<close>: the returned flag and the collection afterwards.\<close>

definition Add :: "Rect3d list \<Rightarrow> Rect3d \<Rightarrow> bool \<times> Rect3d list" where
  "Add rects r =
     (if width r = 0 \<or> height r = 0 \<or> depth r = 0 then (True, rects)
      else if \<not> DisjointAll rects r then (False, rects)
      else (True, rects @ [r]))"

subsection \<open>Sorting\<close>

text \<open>
  \<^verbatim>\<open>std::sort\<close> with a comparator \<open>lt\<close>. The standard leaves the relative order of
  entries that compare equal unspecified; \<open>sort_by\<close> is the insertion sort that keeps
  them in their former order. The invariants proved below use of it only that the
  result is a rearrangement of the input, and in the concrete runs that are evaluated
  no two entries of a sorted list compare equal.
\<close>

fun insort_by :: "('a \<Rightarrow> 'a \<Rightarrow> bool) \<Rightarrow> 'a \<Rightarrow> 'a list \<Rightarrow> 'a list" where
  "insort_by lt a [] = [a]"
| "insort_by lt a (b # bs) = (if lt b a then b # insort_by lt a bs else a # b # bs)"

definition sort_by :: "('a \<Rightarrow> 'a \<Rightarrow> bool) \<Rightarrow> 'a list \<Rightarrow> 'a list" where
  "sort_by lt as = foldr (insort_by lt) as []"

text \<open>
  What \<^verbatim>\<open>std::sort\<close> guarantees of its result \<open>bs\<close> for the input \<open>as\<close>: the same
  entries, and no entry followed by one that compares less. The functions that sort
  take the sorted list as an argument (their names end in \<open>On\<close>), so that a property
  can be stated for every list the sort may leave; the functions without that argument
  take the list of \<open>sort_by\<close>.
\<close>

definition sortOutcome :: "('a \<Rightarrow> 'a \<Rightarrow> bool) \<Rightarrow> 'a list \<Rightarrow> 'a list \<Rightarrow> bool" where
  "sortOutcome lt as bs \<longleftrightarrow> mset bs = mset as \<and> sorted_wrt (\<lambda>a b. \<not> lt b a) bs"

section \<open>The max-rects packer with support (MaxRectsBinPack)\<close>

text \<open>
  Both packer classes have the members \<^verbatim>\<open>binWidth\<close>, \<^verbatim>\<open>binHeight\<close>, \<^verbatim>\<open>binDepth\<close>,
  \<^verbatim>\<open>usedRectangles\<close> and \<^verbatim>\<open>freeRectangles\<close>, the last one with entries of type
  \<^verbatim>\<open>FreeRect3d\<close> here and \<^verbatim>\<open>Rect3d\<close> in the guillotine packer. One record with the
  entry type as parameter carries them, so that the selectors have the members' names
  for both classes.
\<close>

record 'f BinPack =
  binWidth :: int
  binHeight :: int
  binDepth :: int
  usedRectangles :: "Rect3d list"
  freeRectangles :: "'f list"

record MaxRectsBinPack = "FreeRect3d BinPack" +
  binAllowFlip :: bool

text \<open>
  The member \<^verbatim>\<open>int supportTh = 0.8f;\<close> is an \<^verbatim>\<open>int\<close>: the initialiser is
  converted by truncation towards zero.
\<close>

definition float_to_int :: "real \<Rightarrow> int" where
  "float_to_int r = (if r \<ge> 0 then \<lfloor>r\<rfloor> else \<lceil>r\<rceil>)"

definition supportTh :: int where
  "supportTh = float_to_int (8 / 10)"

definition M_Init :: "int \<Rightarrow> int \<Rightarrow> int \<Rightarrow> bool \<Rightarrow> MaxRectsBinPack" where
  "M_Init w h d allowFlip =
     \<lparr>binWidth = w, binHeight = h, binDepth = d,
      usedRectangles = [],
      freeRectangles = [\<lparr>x = 0, y = 0, z = 0, width = w, height = h, depth = d,
                         supportx0 = 0, supportx1 = w, supporty0 = 0, supporty1 = h\<rparr>],
      binAllowFlip = allowFlip\<rparr>"

text \<open>The comparator of \<^verbatim>\<open>sortFreeSpace\<close>: ascending in \<open>(y, z, x)\<close>.\<close>

definition freeSpaceLess :: "FreeRect3d \<Rightarrow> FreeRect3d \<Rightarrow> bool" where
  "freeSpaceLess r1 r2 \<longleftrightarrow>
     (if y r1 < y r2 then True
      else if y r1 = y r2 \<and> z r1 < z r2 then True
      else if y r1 = y r2 \<and> z r1 = z r2 \<and> x r1 < x r2 then True
      else False)"

definition sortFreeSpace :: "FreeRect3d list \<Rightarrow> FreeRect3d list" where
  "sortFreeSpace fs = sort_by freeSpaceLess fs"

definition isBlocked :: "Rect3d \<Rightarrow> Rect3d \<Rightarrow> bool" where
  "isBlocked usedRect newNode \<longleftrightarrow>
     (if x newNode < x usedRect + width usedRect \<and> x usedRect < x newNode + width newNode
         \<and> y newNode < y usedRect + height usedRect \<and> y usedRect < y newNode + height newNode
      then z newNode < z usedRect + depth usedRect
      else False)"

text \<open>
  The loop over \<^verbatim>\<open>usedRectangles\<close> that sets \<^verbatim>\<open>blocked = true\<close> at the first
  blocking box; the flag it starts from is the one the caller left.
\<close>

definition scanBlocked :: "bool \<Rightarrow> Rect3d list \<Rightarrow> Rect3d \<Rightarrow> bool" where
  "scanBlocked blocked used node \<longleftrightarrow> blocked \<or> list_ex (\<lambda>u. isBlocked u node) used"

text \<open>
  \<^verbatim>\<open>FindPositionForNewNodeBottomLeft\<close>. The flag \<^verbatim>\<open>blocked\<close> is declared before the
  loop and reset only in the flipped branch, so it is an argument of the recursion. The
  out-parameters \<^verbatim>\<open>bestY, bestX, bestZ\<close> are never read by the caller.
\<close>

fun FindPositionForNewNodeBottomLeft ::
  "bool \<Rightarrow> Rect3d list \<Rightarrow> int \<Rightarrow> int \<Rightarrow> int \<Rightarrow> bool \<Rightarrow> FreeRect3d list \<Rightarrow> Rect3d" where
  "FindPositionForNewNodeBottomLeft allowFlip used w h d blocked [] = zeroRect"
| "FindPositionForNewNodeBottomLeft allowFlip used w h d blocked (f # fs) =
     (let supportWidth = supportx1 f - supportx0 f;
          supportHeight = supporty1 f - supporty0 f;
          upright = (width f \<ge> w \<and> height f \<ge> h \<and> depth f \<ge> d
                     \<and> supportHeight \<ge> h * supportTh \<and> supportWidth \<ge> w * supportTh);
          node1 = \<lparr>x = supportx0 f, y = supporty0 f, z = z f, width = w, height = h, depth = d\<rparr>;
          blocked1 = (if upright then scanBlocked blocked used node1 else blocked)
      in if upright \<and> \<not> blocked1 then node1
         else
           (let flipped = (allowFlip \<and> width f \<ge> h \<and> height f \<ge> w \<and> depth f \<ge> d
                           \<and> supportHeight \<ge> w * supportTh \<and> supportWidth \<ge> h * supportTh);
                node2 = \<lparr>x = supportx0 f, y = supporty0 f, z = z f,
                         width = h, height = w, depth = d\<rparr>;
                blocked2 = (if flipped then scanBlocked False used node2 else blocked1)
            in if flipped \<and> \<not> blocked2 then node2
               else FindPositionForNewNodeBottomLeft allowFlip used w h d blocked2 fs))"

text \<open>
  \<^verbatim>\<open>SplitFreeNode\<close>: \<open>None\<close> when the boxes do not intersect (the function returns
  false and adds nothing), otherwise the free volumes it appends, in the order of the
  \<^verbatim>\<open>push_back\<close> calls.
\<close>

definition SplitFreeNode :: "FreeRect3d \<Rightarrow> Rect3d \<Rightarrow> FreeRect3d list option" where
  "SplitFreeNode freeNode usedNode =
     (if x usedNode \<ge> x freeNode + width freeNode \<or> x usedNode + width usedNode \<le> x freeNode \<or>
         y usedNode \<ge> y freeNode + height freeNode \<or> y usedNode + height usedNode \<le> y freeNode \<or>
         z usedNode \<ge> z freeNode + depth freeNode \<or> z usedNode + depth usedNode \<le> z freeNode
      then None
      else Some (
        (if y usedNode > y freeNode \<and> y usedNode < y freeNode + height freeNode
         then [freeNode\<lparr>height := y usedNode - y freeNode,
                        supporty1 := min (supporty1 freeNode) (y usedNode)\<rparr>] else []) @
        (if y usedNode + height usedNode < y freeNode + height freeNode
         then [freeNode\<lparr>y := y usedNode + height usedNode,
                        height := y freeNode + height freeNode - (y usedNode + height usedNode),
                        supporty0 := max (supporty0 freeNode) (y usedNode + height usedNode)\<rparr>]
         else []) @
        (if x usedNode > x freeNode \<and> x usedNode < x freeNode + width freeNode
         then [freeNode\<lparr>width := x usedNode - x freeNode,
                        supportx1 := min (supportx1 freeNode) (x usedNode)\<rparr>] else []) @
        (if x usedNode + width usedNode < x freeNode + width freeNode
         then [freeNode\<lparr>x := x usedNode + width usedNode,
                        width := x freeNode + width freeNode - (x usedNode + width usedNode),
                        supportx0 := max (supportx0 freeNode) (x usedNode + width usedNode)\<rparr>]
         else []) @
        (if z usedNode > z freeNode \<and> z usedNode < z freeNode + depth freeNode
         then [freeNode\<lparr>depth := z usedNode - z freeNode\<rparr>] else []) @
        (if z usedNode + depth usedNode < z freeNode + depth freeNode
         then [freeNode\<lparr>z := z usedNode + depth usedNode,
                        depth := z freeNode + depth freeNode - (z usedNode + depth usedNode),
                        supportx0 := x usedNode,
                        supportx1 := x usedNode + width usedNode,
                        supporty0 := y usedNode,
                        supporty1 := y usedNode + height usedNode\<rparr>] else [])))"

text \<open>
  The loop of \<^verbatim>\<open>Insert\<close> over the first \<^verbatim>\<open>numRectanglesToProcess\<close> entries: an entry
  that is split is erased, the pieces are appended behind the entries still to be
  processed. The result is the kept entries and the appended pieces.
\<close>

fun splitFreeNodes :: "FreeRect3d list \<Rightarrow> Rect3d \<Rightarrow> FreeRect3d list \<times> FreeRect3d list" where
  "splitFreeNodes [] usedNode = ([], [])"
| "splitFreeNodes (f # fs) usedNode =
     (let (kept, pieces) = splitFreeNodes fs usedNode
      in case SplitFreeNode f usedNode of
           None \<Rightarrow> (f # kept, pieces)
         | Some new \<Rightarrow> (kept, new @ pieces))"

text \<open>
  The inner loop of \<^verbatim>\<open>PruneFreeList\<close> for a fixed entry \<open>a\<close> (index \<open>i\<close>) against the
  entries behind it: the flag tells whether \<open>a\<close> survives, the list is what is left of
  the entries behind it.
\<close>

fun pruneAgainst :: "FreeRect3d \<Rightarrow> FreeRect3d list \<Rightarrow> bool \<times> FreeRect3d list" where
  "pruneAgainst a [] = (True, [])"
| "pruneAgainst a (b # bs) =
     (if IsContainedInFree3d a b then (False, b # bs)
      else if IsContainedInFree3d b a then pruneAgainst a bs
      else (let (keep, bs') = pruneAgainst a bs in (keep, b # bs')))"

lemma pruneAgainst_length: "length (snd (pruneAgainst a bs)) \<le> length bs"
  by (induction bs) (auto split: prod.splits)

function PruneFreeList :: "FreeRect3d list \<Rightarrow> FreeRect3d list" where
  "PruneFreeList [] = []"
| "PruneFreeList (a # as) =
     (let (keep, as') = pruneAgainst a as
      in if keep then a # PruneFreeList as' else PruneFreeList as')"
  by pat_completeness auto
termination
proof (relation "measure length")
  show "wf (measure length)" by simp
next
  fix a :: FreeRect3d and as p keep as'
  assume "p = pruneAgainst a as" "(keep, as') = p"
  then have "as' = snd (pruneAgainst a as)" by (metis snd_conv)
  then show "(as', a # as) \<in> measure length"
    using pruneAgainst_length [of a as] by simp
next
  fix a :: FreeRect3d and as p keep as'
  assume "p = pruneAgainst a as" "(keep, as') = p"
  then have "as' = snd (pruneAgainst a as)" by (metis snd_conv)
  then show "(as', a # as) \<in> measure length"
    using pruneAgainst_length [of a as] by simp
qed

text \<open>
  \<^verbatim>\<open>Insert(width, height, depth, RectBottomLeftRule)\<close>: the placed box (all zero when
  nothing was placed) and the packer afterwards. The switch has this one case; with
  another method the source reads \<^verbatim>\<open>newNode\<close> uninitialised, which is not modelled.
\<close>

definition M_InsertOn ::
  "FreeRect3d list \<Rightarrow> MaxRectsBinPack \<Rightarrow> int \<Rightarrow> int \<Rightarrow> int \<Rightarrow> Rect3d \<times> MaxRectsBinPack" where
  "M_InsertOn sortedFs st w h d =
     (let st1 = st\<lparr>freeRectangles := sortedFs\<rparr>;
          newNode = FindPositionForNewNodeBottomLeft (binAllowFlip st) (usedRectangles st)
                      w h d False sortedFs
      in if height newNode = 0 then (newNode, st1)
         else
           (let (kept, pieces) = splitFreeNodes sortedFs newNode
            in (newNode,
                st1\<lparr>freeRectangles := PruneFreeList (kept @ pieces),
                    usedRectangles := usedRectangles st @ [newNode]\<rparr>)))"

definition M_Insert :: "MaxRectsBinPack \<Rightarrow> int \<Rightarrow> int \<Rightarrow> int \<Rightarrow> Rect3d \<times> MaxRectsBinPack" where
  "M_Insert st w h d = M_InsertOn (sortFreeSpace (freeRectangles st)) st w h d"

text \<open>
  The loop of \<^verbatim>\<open>Occupancy\<close>: \<^verbatim>\<open>usedSurfaceArea += \<dots>\<close> adds an \<^verbatim>\<open>int\<close> product,
  whose exact value is \<open>area r\<close>, to an \<^verbatim>\<open>unsigned long\<close>.
\<close>

definition usedSurfaceArea :: "(Rect3d \<Rightarrow> int) \<Rightarrow> Rect3d list \<Rightarrow> int" where
  "usedSurfaceArea area rs = foldl (\<lambda>acc r. uint64 (acc + uint64 (int32 (area r)))) 0 rs"

text \<open>
  \<^verbatim>\<open>Occupancy\<close>: the denominator is an \<^verbatim>\<open>int\<close> product. When it is zero the
  division gives a NaN or an infinity, which is \<open>None\<close> here; otherwise the result is
  the quotient, taken exactly: the rounding of the conversions to \<^verbatim>\<open>float\<close> and of the
  division is not modelled.
\<close>

definition M_Occupancy :: "MaxRectsBinPack \<Rightarrow> real option" where
  "M_Occupancy st =
     (let used = usedSurfaceArea (\<lambda>r. width r * height r) (usedRectangles st);
          total = int32 (binWidth st * binHeight st)
      in if total = 0 then None else Some (real_of_int used / real_of_int total))"

section \<open>The guillotine packer (GuillotineBinPack3d)\<close>

text \<open>
  The class declaration is not among the sources; the members and the enumerators are
  those the member functions use. The collection \<^verbatim>\<open>disjointRects\<close> is touched only
  under \<^verbatim>\<open>_DEBUG\<close> and inside \<^verbatim>\<open>debug_assert\<close>, which expands to nothing otherwise,
  and the trace output to \<^verbatim>\<open>std::cout\<close> is left out.
\<close>

datatype FreeRectChoiceHeuristic =
    RectBestAreaFit
  | RectBestShortSideFit
  | RectBestLongSideFit
  | RectWorstAreaFit
  | RectWorstShortSideFit
  | RectWorstLongSideFit

datatype GuillotineSplitHeuristic =
    SplitShorterLeftoverAxis
  | SplitLongerLeftoverAxis
  | SplitMinimizeArea
  | SplitMaximizeArea
  | SplitShorterAxis
  | SplitLongerAxis

type_synonym GuillotineBinPack3d = "Rect3d BinPack"

definition INT_MAX :: int where
  "INT_MAX = 2147483647"

definition INT_MIN :: int where
  "INT_MIN = - 2147483648"

definition G_Init :: "int \<Rightarrow> int \<Rightarrow> int \<Rightarrow> GuillotineBinPack3d" where
  "G_Init w h d =
     \<lparr>binWidth = w, binHeight = h, binDepth = d,
      usedRectangles = [],
      freeRectangles = [\<lparr>x = 0, y = 0, z = 0, width = w, height = h, depth = d\<rparr>]\<rparr>"

definition Fits :: "RectSize3d \<Rightarrow> Rect3d \<Rightarrow> bool" where
  "Fits r freeRect \<longleftrightarrow>
     (RectSize3d.width r \<le> width freeRect \<and> RectSize3d.height r \<le> height freeRect
        \<and> RectSize3d.depth r \<le> depth freeRect) \<or>
     (RectSize3d.height r \<le> width freeRect \<and> RectSize3d.width r \<le> height freeRect
        \<and> RectSize3d.depth r \<le> depth freeRect)"

definition FitsPerfectly :: "RectSize3d \<Rightarrow> Rect3d \<Rightarrow> bool" where
  "FitsPerfectly r freeRect \<longleftrightarrow>
     (RectSize3d.width r = width freeRect \<and> RectSize3d.height r = height freeRect
        \<and> RectSize3d.depth r = depth freeRect) \<or>
     (RectSize3d.height r = width freeRect \<and> RectSize3d.width r = height freeRect
        \<and> RectSize3d.depth r = depth freeRect)"

subsection \<open>Scores\<close>

definition ScoreBestAreaFit :: "int \<Rightarrow> int \<Rightarrow> int \<Rightarrow> Rect3d \<Rightarrow> int" where
  "ScoreBestAreaFit w h d freeRect =
     int32 (width freeRect * height freeRect * depth freeRect - w * h * d)"

definition ScoreBestShortSideFit :: "int \<Rightarrow> int \<Rightarrow> int \<Rightarrow> Rect3d \<Rightarrow> int" where
  "ScoreBestShortSideFit w h d freeRect =
     (let leftoverHoriz = \<bar>width freeRect - w\<bar>;
          leftoverVert = \<bar>height freeRect - h\<bar>;
          leftoverDepth = \<bar>depth freeRect - d\<bar>
      in min (min leftoverHoriz leftoverVert) leftoverDepth)"

definition ScoreBestLongSideFit :: "int \<Rightarrow> int \<Rightarrow> int \<Rightarrow> Rect3d \<Rightarrow> int" where
  "ScoreBestLongSideFit w h d freeRect =
     (let leftoverHoriz = \<bar>width freeRect - w\<bar>;
          leftoverVert = \<bar>height freeRect - h\<bar>;
          leftoverDepth = \<bar>depth freeRect - d\<bar>
      in max (max leftoverHoriz leftoverVert) leftoverDepth)"

definition ScoreWorstAreaFit :: "int \<Rightarrow> int \<Rightarrow> int \<Rightarrow> Rect3d \<Rightarrow> int" where
  "ScoreWorstAreaFit w h d freeRect = int32 (- ScoreBestAreaFit w h d freeRect)"

definition ScoreWorstShortSideFit :: "int \<Rightarrow> int \<Rightarrow> int \<Rightarrow> Rect3d \<Rightarrow> int" where
  "ScoreWorstShortSideFit w h d freeRect = - ScoreBestShortSideFit w h d freeRect"

definition ScoreWorstLongSideFit :: "int \<Rightarrow> int \<Rightarrow> int \<Rightarrow> Rect3d \<Rightarrow> int" where
  "ScoreWorstLongSideFit w h d freeRect = - ScoreBestLongSideFit w h d freeRect"

fun ScoreByHeuristic :: "int \<Rightarrow> int \<Rightarrow> int \<Rightarrow> Rect3d \<Rightarrow> FreeRectChoiceHeuristic \<Rightarrow> int" where
  "ScoreByHeuristic w h d freeRect RectBestAreaFit = ScoreBestAreaFit w h d freeRect"
| "ScoreByHeuristic w h d freeRect RectBestShortSideFit = ScoreBestShortSideFit w h d freeRect"
| "ScoreByHeuristic w h d freeRect RectBestLongSideFit = ScoreBestLongSideFit w h d freeRect"
| "ScoreByHeuristic w h d freeRect RectWorstAreaFit = ScoreWorstAreaFit w h d freeRect"
| "ScoreByHeuristic w h d freeRect RectWorstShortSideFit = ScoreWorstShortSideFit w h d freeRect"
| "ScoreByHeuristic w h d freeRect RectWorstLongSideFit = ScoreWorstLongSideFit w h d freeRect"

subsection \<open>Finding the position of a single box\<close>

text \<open>
  The key of the lambda \<^verbatim>\<open>sortFreeRectsByZ\<close> and its comparison. The key is computed
  in \<^verbatim>\<open>int\<close> and then widened to \<^verbatim>\<open>long\<close>.
\<close>

definition hash_val :: "int \<Rightarrow> int \<Rightarrow> Rect3d \<Rightarrow> int" where
  "hash_val bw bh r = int32 (x r + y r * bw + z r * bw * bh)"

definition sortFreeRectsByZ :: "int \<Rightarrow> int \<Rightarrow> Rect3d \<Rightarrow> Rect3d \<Rightarrow> bool" where
  "sortFreeRectsByZ bw bh rect1 rect2 \<longleftrightarrow> hash_val bw bh rect1 < hash_val bw bh rect2"

text \<open>
  The loop of \<^verbatim>\<open>FindPositionForNewNode\<close> from index \<open>i\<close> on, over the entries from
  there. Each of the four branches ends in \<^verbatim>\<open>break\<close>; the lines that computed a score
  and compared it with \<^verbatim>\<open>bestScore\<close> are commented out in the source, so the argument
  \<open>rectChoice\<close> is not read. When the loop runs out, \<^verbatim>\<open>bestNode\<close> is all zero and
  \<^verbatim>\<open>*nodeIndex\<close> keeps the caller's value, which is 0.
\<close>

fun findPositionFrom ::
  "int \<Rightarrow> int \<Rightarrow> int \<Rightarrow> FreeRectChoiceHeuristic \<Rightarrow> nat \<Rightarrow> Rect3d list \<Rightarrow> Rect3d \<times> nat" where
  "findPositionFrom w h d rectChoice i [] = (zeroRect, 0)"
| "findPositionFrom w h d rectChoice i (f # fs) =
     (if w = width f \<and> h = height f \<and> d = depth f
      then (\<lparr>x = x f, y = y f, z = z f, width = w, height = h, depth = d\<rparr>, i)
      else if h = width f \<and> w = height f \<and> d = depth f
      then (\<lparr>x = x f, y = y f, z = z f, width = h, height = w, depth = d\<rparr>, i)
      else if w \<le> width f \<and> h \<le> height f \<and> d \<le> depth f
      then (\<lparr>x = x f, y = y f, z = z f, width = w, height = h, depth = d\<rparr>, i)
      else if h \<le> width f \<and> w \<le> height f \<and> d \<le> depth f
      then (\<lparr>x = x f, y = y f, z = z f, width = h, height = w, depth = d\<rparr>, i)
      else findPositionFrom w h d rectChoice (Suc i) fs)"

text \<open>
  \<^verbatim>\<open>FindPositionForNewNode\<close> sorts the member \<^verbatim>\<open>freeRectangles\<close> in place before it
  searches: the result is the packer with the sorted list, the node and the index.
  The trace lines between the sort and the loop print the corners of the first entries
  of the sorted list, the first of them \<^verbatim>\<open>freeRectangles[0]\<close> without a test for an
  empty list. Trace output is not part of the model; the read of an entry that does
  not exist is, in \<open>G_InsertChecked\<close> below, and the functions here describe the call
  on a free list that is not empty.
\<close>

definition FindPositionForNewNodeOn ::
  "Rect3d list \<Rightarrow> GuillotineBinPack3d \<Rightarrow> int \<Rightarrow> int \<Rightarrow> int \<Rightarrow> FreeRectChoiceHeuristic
     \<Rightarrow> GuillotineBinPack3d \<times> Rect3d \<times> nat" where
  "FindPositionForNewNodeOn sortedFs st w h d rectChoice =
     (st\<lparr>freeRectangles := sortedFs\<rparr>, findPositionFrom w h d rectChoice 0 sortedFs)"

definition FindPositionForNewNode ::
  "GuillotineBinPack3d \<Rightarrow> int \<Rightarrow> int \<Rightarrow> int \<Rightarrow> FreeRectChoiceHeuristic
     \<Rightarrow> GuillotineBinPack3d \<times> Rect3d \<times> nat" where
  "FindPositionForNewNode st w h d rectChoice =
     FindPositionForNewNodeOn
       (sort_by (sortFreeRectsByZ (binWidth st) (binHeight st)) (freeRectangles st))
       st w h d rectChoice"

subsection \<open>Splitting and merging\<close>

text \<open>
  \<^verbatim>\<open>SplitFreeRectAlongAxis\<close>: the free volumes it appends, in the order of the
  \<^verbatim>\<open>push_back\<close> calls.
\<close>

definition SplitFreeRectAlongAxis :: "Rect3d \<Rightarrow> Rect3d \<Rightarrow> bool \<Rightarrow> Rect3d list" where
  "SplitFreeRectAlongAxis freeRect placedRect splitHorizontal =
     (let bottom = \<lparr>x = x freeRect, y = y freeRect + height placedRect, z = z freeRect,
                    width = (if splitHorizontal then width freeRect else width placedRect),
                    height = height freeRect - height placedRect,
                    depth = depth freeRect\<rparr>;
          right = \<lparr>x = x freeRect + width placedRect, y = y freeRect, z = z freeRect,
                   width = width freeRect - width placedRect,
                   height = (if splitHorizontal then height placedRect else height freeRect),
                   depth = depth freeRect\<rparr>;
          up = \<lparr>x = x freeRect, y = y freeRect, z = z freeRect + depth placedRect,
                width = width placedRect, height = height placedRect,
                depth = depth freeRect - depth placedRect\<rparr>
      in (if width up > 0 \<and> height up > 0 \<and> depth up > 0 then [up] else []) @
         (if width bottom > 0 \<and> height bottom > 0 \<and> depth bottom > 0 then [bottom] else []) @
         (if width right > 0 \<and> height right > 0 \<and> depth right > 0 then [right] else []))"

fun splitHorizontalBy :: "GuillotineSplitHeuristic \<Rightarrow> Rect3d \<Rightarrow> Rect3d \<Rightarrow> bool" where
  "splitHorizontalBy SplitShorterLeftoverAxis freeRect placedRect \<longleftrightarrow>
     width freeRect - width placedRect \<le> height freeRect - height placedRect"
| "splitHorizontalBy SplitLongerLeftoverAxis freeRect placedRect \<longleftrightarrow>
     width freeRect - width placedRect > height freeRect - height placedRect"
| "splitHorizontalBy SplitMinimizeArea freeRect placedRect \<longleftrightarrow>
     int32 (width placedRect * (height freeRect - height placedRect))
       > int32 ((width freeRect - width placedRect) * height placedRect)"
| "splitHorizontalBy SplitMaximizeArea freeRect placedRect \<longleftrightarrow>
     int32 (width placedRect * (height freeRect - height placedRect))
       \<le> int32 ((width freeRect - width placedRect) * height placedRect)"
| "splitHorizontalBy SplitShorterAxis freeRect placedRect \<longleftrightarrow>
     width freeRect \<le> height freeRect"
| "splitHorizontalBy SplitLongerAxis freeRect placedRect \<longleftrightarrow>
     width freeRect > height freeRect"

definition SplitFreeRectByHeuristic ::
  "Rect3d \<Rightarrow> Rect3d \<Rightarrow> GuillotineSplitHeuristic \<Rightarrow> Rect3d list" where
  "SplitFreeRectByHeuristic freeRect placedRect method =
     SplitFreeRectAlongAxis freeRect placedRect (splitHorizontalBy method freeRect placedRect)"

text \<open>\<^verbatim>\<open>v.erase(v.begin() + i)\<close>\<close>

definition erase :: "'a list \<Rightarrow> nat \<Rightarrow> 'a list" where
  "erase as i = take i as @ drop (Suc i) as"

text \<open>
  The body of the inner loop of \<^verbatim>\<open>MergeFreeList\<close> for the entries \<open>a\<close> at index
  \<open>i\<close> and \<open>b\<close> at index \<open>j\<close>: the new value of \<open>a\<close> when \<open>b\<close> is merged into it
  and erased, \<open>None\<close> when nothing happens.
\<close>

definition mergeStep :: "Rect3d \<Rightarrow> Rect3d \<Rightarrow> Rect3d option" where
  "mergeStep a b =
     (if width a = width b \<and> x a = x b \<and> z a = z b \<and> depth a = depth b then
        (if y a = y b + height b
         then Some (a\<lparr>y := y a - height b, height := height a + height b\<rparr>)
         else if y a + height a = y b
         then Some (a\<lparr>height := height a + height b\<rparr>)
         else None)
      else if height a = height b \<and> y a = y b \<and> z a = z b \<and> depth a = depth b then
        (if x a = x b + width b
         then Some (a\<lparr>x := x a - width b, width := width a + width b\<rparr>)
         else if x a + width a = x b
         then Some (a\<lparr>width := width a + width b\<rparr>)
         else None)
      else if width a = width b \<and> height a = height b \<and> x a = x b \<and> y a = y b then
        (if z a = z b + depth b
         then Some (a\<lparr>z := z a - depth b, depth := depth a + depth b\<rparr>)
         else if x a + depth a = x a
         then Some (a\<lparr>depth := depth a + depth b\<rparr>)
         else None)
      else None)"

text \<open>
  The inner loop for the entry at index \<open>i\<close>, whose current value is \<open>a\<close>, over the
  entries behind it: the entry as it ends up and the entries that were not erased.
\<close>

fun mergeInto :: "Rect3d \<Rightarrow> Rect3d list \<Rightarrow> Rect3d \<times> Rect3d list" where
  "mergeInto a [] = (a, [])"
| "mergeInto a (b # bs) =
     (case mergeStep a b of
        Some a' \<Rightarrow> mergeInto a' bs
      | None \<Rightarrow> (let (a', bs') = mergeInto a bs in (a', b # bs')))"

lemma mergeInto_length: "length (snd (mergeInto a bs)) \<le> length bs"
proof (induction bs arbitrary: a)
  case Nil
  show ?case by simp
next
  case (Cons b bs)
  show ?case
  proof (cases "mergeStep a b")
    case None
    then show ?thesis using Cons [of a] by (auto split: prod.splits)
  next
    case (Some a')
    then show ?thesis using Cons [of a'] by simp
  qed
qed

function MergeFreeList :: "Rect3d list \<Rightarrow> Rect3d list" where
  "MergeFreeList [] = []"
| "MergeFreeList (a # as) = (let (a', as') = mergeInto a as in a' # MergeFreeList as')"
  by pat_completeness auto
termination
proof (relation "measure length")
  show "wf (measure length)" by simp
next
  fix a :: Rect3d and as p a' as'
  assume "p = mergeInto a as" "(a', as') = p"
  then have "as' = snd (mergeInto a as)" by (metis snd_conv)
  then show "(as', a # as) \<in> measure length"
    using mergeInto_length [of a as] by simp
qed

subsection \<open>Inserting a single box\<close>

definition G_InsertOn ::
  "Rect3d list \<Rightarrow> GuillotineBinPack3d \<Rightarrow> int \<Rightarrow> int \<Rightarrow> int \<Rightarrow> bool
     \<Rightarrow> FreeRectChoiceHeuristic \<Rightarrow> GuillotineSplitHeuristic
     \<Rightarrow> Rect3d \<times> GuillotineBinPack3d" where
  "G_InsertOn sortedFs st w h d merge rectChoice splitMethod =
     (let (st1, newRect, freeNodeIndex) = FindPositionForNewNodeOn sortedFs st w h d rectChoice
      in if height newRect = 0 then (newRect, st1)
         else
           (let pieces = SplitFreeRectByHeuristic (freeRectangles st1 ! freeNodeIndex)
                           newRect splitMethod;
                free1 = erase (freeRectangles st1 @ pieces) freeNodeIndex;
                free2 = (if merge then MergeFreeList free1 else free1)
            in (newRect,
                st1\<lparr>freeRectangles := free2,
                    usedRectangles := usedRectangles st1 @ [newRect]\<rparr>)))"

definition G_Insert ::
  "GuillotineBinPack3d \<Rightarrow> int \<Rightarrow> int \<Rightarrow> int \<Rightarrow> bool \<Rightarrow> FreeRectChoiceHeuristic
     \<Rightarrow> GuillotineSplitHeuristic \<Rightarrow> Rect3d \<times> GuillotineBinPack3d" where
  "G_Insert st w h d merge rectChoice splitMethod =
     G_InsertOn
       (sort_by (sortFreeRectsByZ (binWidth st) (binHeight st)) (freeRectangles st))
       st w h d merge rectChoice splitMethod"

text \<open>\<^verbatim>\<open>Occupancy\<close>, as for the max-rects packer, with the volumes of the boxes.\<close>

definition G_Occupancy :: "GuillotineBinPack3d \<Rightarrow> real option" where
  "G_Occupancy st =
     (let used = usedSurfaceArea (\<lambda>r. width r * height r * depth r) (usedRectangles st);
          total = int32 (binWidth st * binHeight st * binDepth st)
      in if total = 0 then None else Some (real_of_int used / real_of_int total))"

subsection \<open>Inserting a batch of boxes\<close>

text \<open>
  Indexing a \<^verbatim>\<open>std::vector\<close> outside its bounds is undefined behaviour; the model
  makes it an error value.
\<close>

datatype error = OutOfBounds

text \<open>The four variables that remember the best choice of the scan.\<close>

record BestChoice =
  bestFreeRect :: nat
  bestRect :: nat
  bestFlipped :: bool
  bestScore :: int

text \<open>
  The condition of the third branch,
  \<^verbatim>\<open>rects[j].width <= freeRectangles[i].width && rects[j].height <= freeRectangles[i].height
  && rects[j].depth <= freeRectangles[j].depth\<close>, evaluated from left to right: the last
  conjunct indexes the free list by \<open>j\<close> and is reached only when the first two hold.
\<close>

definition uprightFits :: "Rect3d list \<Rightarrow> Rect3d \<Rightarrow> nat \<Rightarrow> RectSize3d \<Rightarrow> error + bool" where
  "uprightFits free fi j r =
     (if \<not> RectSize3d.width r \<le> width fi then Inr False
      else if \<not> RectSize3d.height r \<le> height fi then Inr False
      else if j < length free then Inr (RectSize3d.depth r \<le> depth (free ! j))
      else Inl OutOfBounds)"

text \<open>
  The inner loop over the boxes from index \<open>j\<close> on, for the free volume \<open>fi\<close> at index
  \<open>i\<close>. The flag of the result tells that a perfect match was found, which leaves both
  loops.
\<close>

fun scanRects ::
  "Rect3d list \<Rightarrow> FreeRectChoiceHeuristic \<Rightarrow> nat \<Rightarrow> Rect3d \<Rightarrow> nat \<Rightarrow> RectSize3d list
     \<Rightarrow> BestChoice \<Rightarrow> error + (BestChoice \<times> bool)" where
  "scanRects free rectChoice i fi j [] best = Inr (best, False)"
| "scanRects free rectChoice i fi j (r # rs) best =
     (if RectSize3d.width r = width fi \<and> RectSize3d.height r = height fi
          \<and> RectSize3d.depth r = depth fi
      then Inr (\<lparr>bestFreeRect = i, bestRect = j, bestFlipped = False, bestScore = INT_MIN\<rparr>,
                True)
      else if RectSize3d.height r = width fi \<and> RectSize3d.width r = height fi
          \<and> RectSize3d.depth r = depth fi
      then Inr (\<lparr>bestFreeRect = i, bestRect = j, bestFlipped = True, bestScore = INT_MIN\<rparr>,
                True)
      else
        (case uprightFits free fi j r of
           Inl e \<Rightarrow> Inl e
         | Inr True \<Rightarrow>
             (let score = ScoreByHeuristic (RectSize3d.width r) (RectSize3d.height r)
                            (RectSize3d.depth r) fi rectChoice
              in scanRects free rectChoice i fi (Suc j) rs
                   (if score < bestScore best
                    then \<lparr>bestFreeRect = i, bestRect = j, bestFlipped = False,
                          bestScore = score\<rparr>
                    else best))
         | Inr False \<Rightarrow>
             (if RectSize3d.height r \<le> width fi \<and> RectSize3d.width r \<le> height fi
                 \<and> RectSize3d.depth r \<le> depth fi
              then
                (let score = ScoreByHeuristic (RectSize3d.height r) (RectSize3d.width r)
                               (RectSize3d.depth r) fi rectChoice
                 in scanRects free rectChoice i fi (Suc j) rs
                      (if score < bestScore best
                       then \<lparr>bestFreeRect = i, bestRect = j, bestFlipped = True,
                             bestScore = score\<rparr>
                       else best))
              else scanRects free rectChoice i fi (Suc j) rs best)))"

text \<open>The outer loop over the free volumes from index \<open>i\<close> on.\<close>

fun scanFree ::
  "Rect3d list \<Rightarrow> RectSize3d list \<Rightarrow> FreeRectChoiceHeuristic \<Rightarrow> nat \<Rightarrow> Rect3d list
     \<Rightarrow> BestChoice \<Rightarrow> error + BestChoice" where
  "scanFree free rects rectChoice i [] best = Inr best"
| "scanFree free rects rectChoice i (fi # fs) best =
     (case scanRects free rectChoice i fi 0 rects best of
        Inl e \<Rightarrow> Inl e
      | Inr (best', True) \<Rightarrow> Inr best'
      | Inr (best', False) \<Rightarrow> scanFree free rects rectChoice (Suc i) fs best')"

text \<open>
  One round of the \<^verbatim>\<open>while\<close> loop after a choice was found: the packer and the list
  of boxes afterwards.
\<close>

definition placeBest ::
  "GuillotineBinPack3d \<Rightarrow> RectSize3d list \<Rightarrow> bool \<Rightarrow> GuillotineSplitHeuristic \<Rightarrow> BestChoice
     \<Rightarrow> GuillotineBinPack3d \<times> RectSize3d list" where
  "placeBest st rects merge splitMethod best =
     (let f = freeRectangles st ! bestFreeRect best;
          r = rects ! bestRect best;
          newNode = \<lparr>x = x f, y = y f, z = z f,
                     width = (if bestFlipped best then RectSize3d.height r
                              else RectSize3d.width r),
                     height = (if bestFlipped best then RectSize3d.width r
                               else RectSize3d.height r),
                     depth = RectSize3d.depth r\<rparr>;
          pieces = SplitFreeRectByHeuristic f newNode splitMethod;
          free1 = erase (freeRectangles st @ pieces) (bestFreeRect best);
          free2 = (if merge then MergeFreeList free1 else free1)
      in (st\<lparr>freeRectangles := free2, usedRectangles := usedRectangles st @ [newNode]\<rparr>,
          erase rects (bestRect best)))"

text \<open>
  The \<^verbatim>\<open>while\<close> loop of the batch \<^verbatim>\<open>Insert\<close>, driven by the number of boxes left:
  every round that does not return removes one box. The result is the packer and the
  boxes that were not packed.
\<close>

fun insertRounds ::
  "nat \<Rightarrow> GuillotineBinPack3d \<Rightarrow> RectSize3d list \<Rightarrow> bool \<Rightarrow> FreeRectChoiceHeuristic
     \<Rightarrow> GuillotineSplitHeuristic \<Rightarrow> BestChoice
     \<Rightarrow> error + (GuillotineBinPack3d \<times> RectSize3d list)" where
  "insertRounds 0 st rects merge rectChoice splitMethod best = Inr (st, rects)"
| "insertRounds (Suc n) st rects merge rectChoice splitMethod best =
     (if rects = [] then Inr (st, rects)
      else
        (case scanFree (freeRectangles st) rects rectChoice 0 (freeRectangles st)
                (best\<lparr>bestScore := INT_MAX\<rparr>) of
           Inl e \<Rightarrow> Inl e
         | Inr best' \<Rightarrow>
             if bestScore best' = INT_MAX then Inr (st, rects)
             else
               (let (st', rects') = placeBest st rects merge splitMethod best'
                in insertRounds n st' rects' merge rectChoice splitMethod best')))"

definition G_InsertBatch ::
  "GuillotineBinPack3d \<Rightarrow> RectSize3d list \<Rightarrow> bool \<Rightarrow> FreeRectChoiceHeuristic
     \<Rightarrow> GuillotineSplitHeuristic \<Rightarrow> error + (GuillotineBinPack3d \<times> RectSize3d list)" where
  "G_InsertBatch st rects merge rectChoice splitMethod =
     insertRounds (length rects) st rects merge rectChoice splitMethod
       \<lparr>bestFreeRect = 0, bestRect = 0, bestFlipped = False, bestScore = INT_MAX\<rparr>"

subsection \<open>The read of the first free volume in the single insert\<close>

text \<open>
  Right after the sort, \<^verbatim>\<open>FindPositionForNewNode\<close> prints the corner of
  \<^verbatim>\<open>freeRectangles[0]\<close>, whatever the size of the vector. \<open>G_InsertChecked\<close> is the
  single \<^verbatim>\<open>Insert\<close> with this read: when the free list is empty the read is outside
  the vector, which is the error value as in the batch insert; otherwise the call goes
  on as \<open>G_InsertOn\<close> describes.
\<close>

definition G_InsertChecked ::
  "Rect3d list \<Rightarrow> GuillotineBinPack3d \<Rightarrow> int \<Rightarrow> int \<Rightarrow> int \<Rightarrow> bool
     \<Rightarrow> FreeRectChoiceHeuristic \<Rightarrow> GuillotineSplitHeuristic
     \<Rightarrow> error + (Rect3d \<times> GuillotineBinPack3d)" where
  "G_InsertChecked sortedFs st w h d merge rectChoice splitMethod =
     (if sortedFs = [] then Inl OutOfBounds
      else Inr (G_InsertOn sortedFs st w h d merge rectChoice splitMethod))"

section \<open>Auxiliary notions for the properties\<close>

definition volume :: "Rect3d \<Rightarrow> int" where
  "volume r = width r * height r * depth r"

definition totalVolume :: "Rect3d list \<Rightarrow> int" where
  "totalVolume rs = sum_list (map volume rs)"

text \<open>A request \<open>(w, h, d)\<close> as a \<^verbatim>\<open>RectSize3d\<close>.\<close>

definition sizeOf :: "int \<Rightarrow> int \<Rightarrow> int \<Rightarrow> RectSize3d" where
  "sizeOf w h d = \<lparr>RectSize3d.width = w, height = h, depth = d\<rparr>"

text \<open>
  The box of size \<open>(w, h, d)\<close> at the corner of the free volume \<open>f\<close>: upright when it
  fits upright, with width and height swapped otherwise.
\<close>

definition orientedNode :: "int \<Rightarrow> int \<Rightarrow> int \<Rightarrow> Rect3d \<Rightarrow> Rect3d" where
  "orientedNode w h d f =
     (if w \<le> width f \<and> h \<le> height f \<and> d \<le> depth f
      then \<lparr>x = x f, y = y f, z = z f, width = w, height = h, depth = d\<rparr>
      else \<lparr>x = x f, y = y f, z = z f, width = h, height = w, depth = d\<rparr>)"

text \<open>The free list of the guillotine packer as \<^verbatim>\<open>FindPositionForNewNode\<close> sorts it.\<close>

definition sortedFree :: "GuillotineBinPack3d \<Rightarrow> Rect3d list" where
  "sortedFree st = sort_by (sortFreeRectsByZ (binWidth st) (binHeight st)) (freeRectangles st)"

text \<open>
  The free volume \<open>f\<close> of the max-rects packer takes the box \<open>(w, h, d)\<close> next to the
  placed boxes \<open>used\<close>: in one of the orientations the packer may use, the box passes
  the extent test and the support test of \<open>f\<close>, and the node at the support corner of
  \<open>f\<close> is blocked by no placed box.
\<close>

definition M_Accepts :: "bool \<Rightarrow> Rect3d list \<Rightarrow> int \<Rightarrow> int \<Rightarrow> int \<Rightarrow> FreeRect3d \<Rightarrow> bool" where
  "M_Accepts allowFlip used w h d f \<longleftrightarrow>
     (width f \<ge> w \<and> height f \<ge> h \<and> depth f \<ge> d
        \<and> supporty1 f - supporty0 f \<ge> h * supportTh
        \<and> supportx1 f - supportx0 f \<ge> w * supportTh
        \<and> \<not> list_ex (\<lambda>u. isBlocked u \<lparr>x = supportx0 f, y = supporty0 f, z = z f,
                                        width = w, height = h, depth = d\<rparr>) used)
     \<or>
     (allowFlip \<and> width f \<ge> h \<and> height f \<ge> w \<and> depth f \<ge> d
        \<and> supporty1 f - supporty0 f \<ge> w * supportTh
        \<and> supportx1 f - supportx0 f \<ge> h * supportTh
        \<and> \<not> list_ex (\<lambda>u. isBlocked u \<lparr>x = supportx0 f, y = supporty0 f, z = z f,
                                        width = h, height = w, depth = d\<rparr>) used)"

text \<open>All pairs of different positions of a list are disjoint.\<close>

fun pairwiseDisjoint :: "Rect3d list \<Rightarrow> bool" where
  "pairwiseDisjoint [] \<longleftrightarrow> True"
| "pairwiseDisjoint (r # rs) \<longleftrightarrow> list_all (Disjoint r) rs \<and> pairwiseDisjoint rs"

definition positive :: "Rect3d \<Rightarrow> bool" where
  "positive r \<longleftrightarrow> 0 < width r \<and> 0 < height r \<and> 0 < depth r"

text \<open>The extent of \<open>a\<close> lies inside the extent of \<open>b\<close> on every axis.\<close>

definition insideOf :: "Rect3d \<Rightarrow> Rect3d \<Rightarrow> bool" where
  "insideOf a b \<longleftrightarrow>
     x b \<le> x a \<and> x a + width a \<le> x b + width b \<and>
     y b \<le> y a \<and> y a + height a \<le> y b + height b \<and>
     z b \<le> z a \<and> z a + depth a \<le> z b + depth b"

text \<open>
  A list of free volumes of the guillotine packer in a container of depth \<open>D\<close>, next
  to a list \<open>us\<close> of other boxes: every volume has positive extents, reaches up to the
  top of the container and is disjoint from the boxes of \<open>us\<close> and from the other
  volumes.
\<close>

definition freeOK :: "int \<Rightarrow> Rect3d list \<Rightarrow> Rect3d list \<Rightarrow> bool" where
  "freeOK D us fs \<longleftrightarrow>
     list_all (\<lambda>f. positive f \<and> z f + depth f = D \<and> list_all (Disjoint f) us) fs
     \<and> pairwiseDisjoint fs"

definition G_inv :: "GuillotineBinPack3d \<Rightarrow> bool" where
  "G_inv st \<longleftrightarrow>
     freeOK (binDepth st) (usedRectangles st) (freeRectangles st)
     \<and> list_all (\<lambda>u. positive u \<and> z u < binDepth st) (usedRectangles st)
     \<and> pairwiseDisjoint (usedRectangles st)"

text \<open>The box \<open>r\<close> lies inside the container \<open>[0,W] \<times> [0,H] \<times> [0,D]\<close>.\<close>

definition withinBin :: "int \<Rightarrow> int \<Rightarrow> int \<Rightarrow> Rect3d \<Rightarrow> bool" where
  "withinBin W H D r \<longleftrightarrow>
     0 \<le> x r \<and> x r + width r \<le> W \<and>
     0 \<le> y r \<and> y r + height r \<le> H \<and>
     0 \<le> z r \<and> z r + depth r \<le> D"

text \<open>
  The free volumes of a guillotine packer have positive extents and lie, like the
  placed boxes, inside the container of the packer.
\<close>

definition G_inside :: "GuillotineBinPack3d \<Rightarrow> bool" where
  "G_inside st \<longleftrightarrow>
     list_all (\<lambda>f. positive f \<and> withinBin (binWidth st) (binHeight st) (binDepth st) f)
       (freeRectangles st)
     \<and> list_all (withinBin (binWidth st) (binHeight st) (binDepth st)) (usedRectangles st)"

text \<open>Sequences of insert calls on the two packers.\<close>

datatype G_Call =
    InsertOne int int int bool FreeRectChoiceHeuristic GuillotineSplitHeuristic
  | InsertBatch "RectSize3d list" bool FreeRectChoiceHeuristic GuillotineSplitHeuristic

fun G_call :: "GuillotineBinPack3d \<Rightarrow> G_Call \<Rightarrow> error + GuillotineBinPack3d" where
  "G_call st (InsertOne w h d merge rectChoice splitMethod) =
     Inr (snd (G_Insert st w h d merge rectChoice splitMethod))"
| "G_call st (InsertBatch rects merge rectChoice splitMethod) =
     (case G_InsertBatch st rects merge rectChoice splitMethod of
        Inl e \<Rightarrow> Inl e
      | Inr (st', rest) \<Rightarrow> Inr st')"

fun G_run :: "GuillotineBinPack3d \<Rightarrow> G_Call list \<Rightarrow> error + GuillotineBinPack3d" where
  "G_run st [] = Inr st"
| "G_run st (c # cs) = (case G_call st c of Inl e \<Rightarrow> Inl e | Inr st' \<Rightarrow> G_run st' cs)"

text \<open>The sizes a call asks for are positive.\<close>

definition positiveSize :: "RectSize3d \<Rightarrow> bool" where
  "positiveSize r \<longleftrightarrow>
     0 < RectSize3d.width r \<and> 0 < RectSize3d.height r \<and> 0 < RectSize3d.depth r"

fun positiveCall :: "G_Call \<Rightarrow> bool" where
  "positiveCall (InsertOne w h d merge rectChoice splitMethod) \<longleftrightarrow> 0 < w \<and> 0 < h \<and> 0 < d"
| "positiveCall (InsertBatch rects merge rectChoice splitMethod) \<longleftrightarrow>
     list_all positiveSize rects"

text \<open>
  A choice of the batch scan that names a free volume and a box of the lists, the box
  being no wider and no higher than the free volume in the chosen orientation.
\<close>

definition validBest :: "Rect3d list \<Rightarrow> RectSize3d list \<Rightarrow> BestChoice \<Rightarrow> bool" where
  "validBest free rects b \<longleftrightarrow>
     bestFreeRect b < length free \<and> bestRect b < length rects \<and>
     (if bestFlipped b
      then RectSize3d.height (rects ! bestRect b) \<le> width (free ! bestFreeRect b)
           \<and> RectSize3d.width (rects ! bestRect b) \<le> height (free ! bestFreeRect b)
      else RectSize3d.width (rects ! bestRect b) \<le> width (free ! bestFreeRect b)
           \<and> RectSize3d.height (rects ! bestRect b) \<le> height (free ! bestFreeRect b))"

fun M_run :: "MaxRectsBinPack \<Rightarrow> (int \<times> int \<times> int) list \<Rightarrow> MaxRectsBinPack" where
  "M_run st [] = st"
| "M_run st ((w, h, d) # cs) = M_run (snd (M_Insert st w h d)) cs"

section \<open>Evaluation of the packers on concrete runs\<close>

lemma supportTh_zero: "supportTh = 0"
  by (simp add: supportTh_def float_to_int_def)

lemma M_Insert_eq:
  "M_Insert st w h d =
     (let sorted = sortFreeSpace (freeRectangles st);
          st1 = st\<lparr>freeRectangles := sorted\<rparr>;
          newNode = FindPositionForNewNodeBottomLeft (binAllowFlip st) (usedRectangles st)
                      w h d False sorted
      in if height newNode = 0 then (newNode, st1)
         else
           (let (kept, pieces) = splitFreeNodes sorted newNode
            in (newNode,
                st1\<lparr>freeRectangles := PruneFreeList (kept @ pieces),
                    usedRectangles := usedRectangles st @ [newNode]\<rparr>)))"
  by (simp add: M_Insert_def M_InsertOn_def Let_def)

lemma FindPositionForNewNode_eq:
  "FindPositionForNewNode st w h d rectChoice =
     (let sorted = sort_by (sortFreeRectsByZ (binWidth st) (binHeight st)) (freeRectangles st)
      in (st\<lparr>freeRectangles := sorted\<rparr>, findPositionFrom w h d rectChoice 0 sorted))"
  by (simp add: FindPositionForNewNode_def FindPositionForNewNodeOn_def Let_def)

lemma G_Insert_eq:
  "G_Insert st w h d merge rectChoice splitMethod =
     (let (st1, newRect, freeNodeIndex) = FindPositionForNewNode st w h d rectChoice
      in if height newRect = 0 then (newRect, st1)
         else
           (let pieces = SplitFreeRectByHeuristic (freeRectangles st1 ! freeNodeIndex)
                           newRect splitMethod;
                free1 = erase (freeRectangles st1 @ pieces) freeNodeIndex;
                free2 = (if merge then MergeFreeList free1 else free1)
            in (newRect,
                st1\<lparr>freeRectangles := free2,
                    usedRectangles := usedRectangles st1 @ [newRect]\<rparr>)))"
  by (simp add: G_Insert_def G_InsertOn_def FindPositionForNewNode_def)

lemmas m_eval = M_Insert_eq M_Init_def sortFreeSpace_def sort_by_def freeSpaceLess_def
  supportTh_zero scanBlocked_def isBlocked_def SplitFreeNode_def IsContainedInFree3d_def
  Let_def zeroRect_def

lemmas g_eval = G_Insert_eq G_Init_def FindPositionForNewNode_eq sort_by_def
  sortFreeRectsByZ_def hash_val_def int32_def SplitFreeRectByHeuristic_def SplitFreeRectAlongAxis_def
  erase_def Let_def zeroRect_def mergeStep_def

section \<open>Support gating of the max-rects packer\<close>

text \<open>
  Claim C1 says that a candidate is accepted only if the support footprint covers at
  least the fraction 0.8 of the candidate's width and of its height. The member
  \<^verbatim>\<open>supportTh\<close> is declared \<^verbatim>\<open>int\<close>, so its initialiser 0.8f becomes 0 and the two
  comparisons \<^verbatim>\<open>supportHeight >= height * supportTh\<close> and
  \<^verbatim>\<open>supportWidth >= width * supportTh\<close> ask for a non-negative footprint only.
  In the container \<open>(10,10,10)\<close>, after the box \<open>(4,4,4)\<close> was placed at the origin, the
  free volume above it has the support footprint \<open>[0,4] \<times> [0,4]\<close>; the request
  \<open>(10,10,6)\<close> is placed into that volume, although the footprint covers 4 of the 10
  units of either side, which is below \<open>0.8 \<sqdot> 10\<close>.
\<close>

theorem support_gate_accepts_low_coverage:
  "supportTh = 0 \<and>
   M_Insert (M_Init 10 10 10 True) 4 4 4 =
     (\<lparr>x = 0, y = 0, z = 0, width = 4, height = 4, depth = 4\<rparr>,
      \<lparr>binWidth = 10, binHeight = 10, binDepth = 10,
       usedRectangles = [\<lparr>x = 0, y = 0, z = 0, width = 4, height = 4, depth = 4\<rparr>],
       freeRectangles =
         [\<lparr>x = 0, y = 4, z = 0, width = 10, height = 6, depth = 10,
           supportx0 = 0, supportx1 = 10, supporty0 = 4, supporty1 = 10\<rparr>,
          \<lparr>x = 4, y = 0, z = 0, width = 6, height = 10, depth = 10,
           supportx0 = 4, supportx1 = 10, supporty0 = 0, supporty1 = 10\<rparr>,
          \<lparr>x = 0, y = 0, z = 4, width = 10, height = 10, depth = 6,
           supportx0 = 0, supportx1 = 4, supporty0 = 0, supporty1 = 4\<rparr>],
       binAllowFlip = True\<rparr>) \<and>
   fst (M_Insert (snd (M_Insert (M_Init 10 10 10 True) 4 4 4)) 10 10 6) =
     \<lparr>x = 0, y = 0, z = 4, width = 10, height = 10, depth = 6\<rparr> \<and>
   real_of_int (4 - 0) < 8 / 10 * real_of_int 10"
  by (simp add: m_eval)

section \<open>Occupancy\<close>

text \<open>
  The max-rects packer stacks boxes in \<open>z\<close> and \<^verbatim>\<open>MaxRectsBinPack::Occupancy\<close> adds
  up their footprints \<open>width \<sqdot> height\<close> over \<open>binWidth \<sqdot> binHeight\<close>: it is the
  two-dimensional ratio, which counts every layer of a stack. In the container
  \<open>(10,10,10)\<close>, two boxes \<open>(10,10,5)\<close> are placed on top of each other and the ratio
  is 2.
\<close>

lemma max_rects_occupancy_counts_layers:
  "usedRectangles (snd (M_Insert (snd (M_Insert (M_Init 10 10 10 True) 10 10 5)) 10 10 5)) =
     [\<lparr>x = 0, y = 0, z = 0, width = 10, height = 10, depth = 5\<rparr>,
      \<lparr>x = 0, y = 0, z = 5, width = 10, height = 10, depth = 5\<rparr>] \<and>
   M_Occupancy (snd (M_Insert (snd (M_Insert (M_Init 10 10 10 True) 10 10 5)) 10 10 5)) = Some 2"
  by (simp add: m_eval M_Occupancy_def usedSurfaceArea_def int32_def uint64_def)

text \<open>
  Claim C8 says that the occupancy of either packer lies in \<open>[0,1]\<close>. The occupancy of
  the guillotine packer is the volume of the placed boxes over the volume of the
  container. The batch insert compares the depth of box \<open>j\<close> with the depth of free
  volume \<open>j\<close> instead of free volume \<open>i\<close>. In the container \<open>(10,10,10)\<close>, after the
  single insert of \<open>(5,10,5)\<close> the free list is the up volume \<open>(5,10,5)\<close> at \<open>z = 5\<close>
  and the right volume \<open>(5,10,10)\<close>; the batch \<open>[(20,20,20), (5,10,9)]\<close> places the box
  of depth 9 into the up volume of depth 5, where it reaches \<open>z = 14\<close>, above the
  container; the single insert of \<open>(5,10,10)\<close> then fills the right volume. The three
  placed boxes have the volumes 250, 450 and 500 in a container of volume 1000: the
  occupancy is \<open>6/5\<close>.
\<close>

theorem batch_insert_occupancy_exceeds_one:
  "G_Insert (G_Init 10 10 10) 5 10 5 False RectBestAreaFit SplitShorterLeftoverAxis =
     (\<lparr>x = 0, y = 0, z = 0, width = 5, height = 10, depth = 5\<rparr>,
      \<lparr>binWidth = 10, binHeight = 10, binDepth = 10,
       usedRectangles = [\<lparr>x = 0, y = 0, z = 0, width = 5, height = 10, depth = 5\<rparr>],
       freeRectangles =
         [\<lparr>x = 0, y = 0, z = 5, width = 5, height = 10, depth = 5\<rparr>,
          \<lparr>x = 5, y = 0, z = 0, width = 5, height = 10, depth = 10\<rparr>]\<rparr>) \<and>
   G_InsertBatch
     \<lparr>binWidth = 10, binHeight = 10, binDepth = 10,
      usedRectangles = [\<lparr>x = 0, y = 0, z = 0, width = 5, height = 10, depth = 5\<rparr>],
      freeRectangles =
        [\<lparr>x = 0, y = 0, z = 5, width = 5, height = 10, depth = 5\<rparr>,
         \<lparr>x = 5, y = 0, z = 0, width = 5, height = 10, depth = 10\<rparr>]\<rparr>
     [\<lparr>RectSize3d.width = 20, height = 20, depth = 20\<rparr>,
      \<lparr>RectSize3d.width = 5, height = 10, depth = 9\<rparr>]
     False RectBestAreaFit SplitShorterLeftoverAxis =
   Inr (\<lparr>binWidth = 10, binHeight = 10, binDepth = 10,
         usedRectangles =
           [\<lparr>x = 0, y = 0, z = 0, width = 5, height = 10, depth = 5\<rparr>,
            \<lparr>x = 0, y = 0, z = 5, width = 5, height = 10, depth = 9\<rparr>],
         freeRectangles =
           [\<lparr>x = 5, y = 0, z = 0, width = 5, height = 10, depth = 10\<rparr>]\<rparr>,
        [\<lparr>RectSize3d.width = 20, height = 20, depth = 20\<rparr>]) \<and>
   G_Insert
     \<lparr>binWidth = 10, binHeight = 10, binDepth = 10,
      usedRectangles =
        [\<lparr>x = 0, y = 0, z = 0, width = 5, height = 10, depth = 5\<rparr>,
         \<lparr>x = 0, y = 0, z = 5, width = 5, height = 10, depth = 9\<rparr>],
      freeRectangles =
        [\<lparr>x = 5, y = 0, z = 0, width = 5, height = 10, depth = 10\<rparr>]\<rparr>
     5 10 10 False RectBestAreaFit SplitShorterLeftoverAxis =
     (\<lparr>x = 5, y = 0, z = 0, width = 5, height = 10, depth = 10\<rparr>,
      \<lparr>binWidth = 10, binHeight = 10, binDepth = 10,
       usedRectangles =
         [\<lparr>x = 0, y = 0, z = 0, width = 5, height = 10, depth = 5\<rparr>,
          \<lparr>x = 0, y = 0, z = 5, width = 5, height = 10, depth = 9\<rparr>,
          \<lparr>x = 5, y = 0, z = 0, width = 5, height = 10, depth = 10\<rparr>],
       freeRectangles = []\<rparr>) \<and>
   G_Occupancy
     \<lparr>binWidth = 10, binHeight = 10, binDepth = 10,
      usedRectangles =
        [\<lparr>x = 0, y = 0, z = 0, width = 5, height = 10, depth = 5\<rparr>,
         \<lparr>x = 0, y = 0, z = 5, width = 5, height = 10, depth = 9\<rparr>,
         \<lparr>x = 5, y = 0, z = 0, width = 5, height = 10, depth = 10\<rparr>],
      freeRectangles = []\<rparr> = Some (6 / 5)"
proof (intro conjI)
  show "G_InsertBatch
     \<lparr>binWidth = 10, binHeight = 10, binDepth = 10,
      usedRectangles = [\<lparr>x = 0, y = 0, z = 0, width = 5, height = 10, depth = 5\<rparr>],
      freeRectangles =
        [\<lparr>x = 0, y = 0, z = 5, width = 5, height = 10, depth = 5\<rparr>,
         \<lparr>x = 5, y = 0, z = 0, width = 5, height = 10, depth = 10\<rparr>]\<rparr>
     [\<lparr>RectSize3d.width = 20, height = 20, depth = 20\<rparr>,
      \<lparr>RectSize3d.width = 5, height = 10, depth = 9\<rparr>]
     False RectBestAreaFit SplitShorterLeftoverAxis =
   Inr (\<lparr>binWidth = 10, binHeight = 10, binDepth = 10,
         usedRectangles =
           [\<lparr>x = 0, y = 0, z = 0, width = 5, height = 10, depth = 5\<rparr>,
            \<lparr>x = 0, y = 0, z = 5, width = 5, height = 10, depth = 9\<rparr>],
         freeRectangles =
           [\<lparr>x = 5, y = 0, z = 0, width = 5, height = 10, depth = 10\<rparr>]\<rparr>,
        [\<lparr>RectSize3d.width = 20, height = 20, depth = 20\<rparr>])"
    by code_simp
qed (simp_all add: g_eval G_Occupancy_def usedSurfaceArea_def int32_def uint64_def)

section \<open>Index of the depth comparison in the batch insert\<close>

text \<open>
  Claim C10 says that the depth comparison of the upright test reads an entry inside
  the free list. The comparison reads \<^verbatim>\<open>freeRectangles[j].depth\<close>, where \<open>j\<close> is the
  index of the box. A fresh packer has one free volume; with two boxes \<open>(5,5,5)\<close> the
  test for the second box reads the entry of index 1 of a list of length 1.
\<close>

theorem batch_insert_reads_out_of_bounds:
  "G_InsertBatch (G_Init 10 10 10)
     [\<lparr>RectSize3d.width = 5, height = 5, depth = 5\<rparr>,
      \<lparr>RectSize3d.width = 5, height = 5, depth = 5\<rparr>]
     False RectBestAreaFit SplitShorterLeftoverAxis = Inl OutOfBounds"
  by code_simp

section \<open>Facts about sorting and the search of the single insert\<close>

lemma mset_insort_by: "mset (insort_by lt a bs) = add_mset a (mset bs)"
  by (induction bs) auto

lemma mset_sort_by: "mset (sort_by lt as) = mset as"
  by (induction as) (auto simp: sort_by_def mset_insort_by)

lemma set_sort_by: "set (sort_by lt as) = set as"
  using mset_sort_by [of lt as] by (metis set_mset_mset)

lemma length_sort_by: "length (sort_by lt as) = length as"
  using mset_sort_by [of lt as] by (metis size_mset)

lemma Fits_sizeOf: "Fits (sizeOf w h d) f \<longleftrightarrow>
   (w \<le> width f \<and> h \<le> height f \<and> d \<le> depth f) \<or> (h \<le> width f \<and> w \<le> height f \<and> d \<le> depth f)"
  by (simp add: Fits_def sizeOf_def)

lemma four_branches:
  "(A \<Longrightarrow> C) \<Longrightarrow> (B \<Longrightarrow> D) \<Longrightarrow> (B \<Longrightarrow> C \<Longrightarrow> A) \<Longrightarrow>
   (if A then (p, i) else if B then (q, i) else if C then (p, i) else if D then (q, i) else r)
     = (if C \<or> D then (if C then p else q, i) else r)"
  by auto

lemma findPositionFrom_Cons:
  "findPositionFrom w h d rc i (f # fs) =
     (if Fits (sizeOf w h d) f then (orientedNode w h d f, i)
      else findPositionFrom w h d rc (Suc i) fs)"
  unfolding findPositionFrom.simps Fits_sizeOf orientedNode_def
  by (rule four_branches) linarith+

lemma findPositionFrom_none:
  "\<forall>f \<in> set fs. \<not> Fits (sizeOf w h d) f \<Longrightarrow> findPositionFrom w h d rc i fs = (zeroRect, 0)"
proof (induction fs arbitrary: i)
  case Nil
  show ?case by simp
next
  case (Cons f fs)
  then show ?case by (simp only: findPositionFrom_Cons) simp
qed

lemma findPositionFrom_first:
  "\<exists>f \<in> set fs. Fits (sizeOf w h d) f \<Longrightarrow>
   \<exists>j < length fs. findPositionFrom w h d rc i fs = (orientedNode w h d (fs ! j), i + j)
      \<and> Fits (sizeOf w h d) (fs ! j) \<and> (\<forall>l < j. \<not> Fits (sizeOf w h d) (fs ! l))"
proof (induction fs arbitrary: i)
  case Nil
  then show ?case by simp
next
  case (Cons f fs)
  show ?case
  proof (cases "Fits (sizeOf w h d) f")
    case True
    then have "findPositionFrom w h d rc i (f # fs) = (orientedNode w h d f, i)"
      by (simp only: findPositionFrom_Cons if_True)
    with True show ?thesis by (intro exI [of _ 0]) simp
  next
    case False
    with Cons.prems have "\<exists>f \<in> set fs. Fits (sizeOf w h d) f" by auto
    from Cons.IH [OF this, of "Suc i"] obtain j where j: "j < length fs"
      "findPositionFrom w h d rc (Suc i) fs = (orientedNode w h d (fs ! j), Suc i + j)"
      "Fits (sizeOf w h d) (fs ! j)" "\<forall>l < j. \<not> Fits (sizeOf w h d) (fs ! l)" by blast
    from False have "findPositionFrom w h d rc i (f # fs) = findPositionFrom w h d rc (Suc i) fs"
      by (simp only: findPositionFrom_Cons if_False)
    with j False show ?thesis
      by (intro exI [of _ "Suc j"]) (auto simp: less_Suc_eq_0_disj)
  qed
qed


lemma FindPositionForNewNode_sortedFree:
  "FindPositionForNewNode st w h d rc =
     (st\<lparr>freeRectangles := sortedFree st\<rparr>, findPositionFrom w h d rc 0 (sortedFree st))"
  by (simp add: FindPositionForNewNode_eq sortedFree_def Let_def)

lemma set_sortedFree: "set (sortedFree st) = set (freeRectangles st)"
  by (simp add: sortedFree_def set_sort_by)

lemma mset_sortedFree: "mset (sortedFree st) = mset (freeRectangles st)"
  by (simp add: sortedFree_def mset_sort_by)

lemma FindBL_none:
  "\<forall>f \<in> set fs. \<not> M_Accepts flip used w h d f \<Longrightarrow>
   FindPositionForNewNodeBottomLeft flip used w h d blocked fs = zeroRect"
proof (induction fs arbitrary: blocked)
  case Nil
  show ?case by simp
next
  case (Cons f fs)
  from Cons.prems have nf: "\<not> M_Accepts flip used w h d f"
    and rest: "\<forall>f \<in> set fs. \<not> M_Accepts flip used w h d f" by simp_all
  note ih = Cons.IH [OF rest]
  from nf show ?case
    by (simp only: FindPositionForNewNodeBottomLeft.simps Let_def)
       (auto simp: M_Accepts_def scanBlocked_def ih)
qed

lemma sorted_wrt_insort_by:
  assumes asym: "\<And>a b. lt a b \<Longrightarrow> \<not> lt b a"
    and ntr: "\<And>a b c. \<not> lt a b \<Longrightarrow> \<not> lt b c \<Longrightarrow> \<not> lt a c"
    and srt: "sorted_wrt (\<lambda>a b. \<not> lt b a) bs"
  shows "sorted_wrt (\<lambda>a b. \<not> lt b a) (insort_by lt a bs)"
  using srt
proof (induction bs)
  case Nil
  show ?case by simp
next
  case (Cons b bs)
  have s: "set (insort_by lt a bs) = insert a (set bs)"
    using mset_insort_by [of lt a bs] by (metis set_mset_add_mset_insert set_mset_mset)
  show ?case
  proof (cases "lt b a")
    case True
    with Cons asym [OF True] show ?thesis by (auto simp: s)
  next
    case False
    with Cons ntr [OF _ False] show ?thesis by auto
  qed
qed

lemma sort_by_sortOutcome:
  assumes asym: "\<And>a b. lt a b \<Longrightarrow> \<not> lt b a"
    and ntr: "\<And>a b c. \<not> lt a b \<Longrightarrow> \<not> lt b c \<Longrightarrow> \<not> lt a c"
  shows "sortOutcome lt as (sort_by lt as)"
proof -
  have "sorted_wrt (\<lambda>a b. \<not> lt b a) (sort_by lt as)"
    by (induction as) (simp_all add: sort_by_def sorted_wrt_insort_by [OF asym ntr])
  then show ?thesis by (simp add: sortOutcome_def mset_sort_by)
qed

lemma sortedFree_sortOutcome:
  "sortOutcome (sortFreeRectsByZ (binWidth st) (binHeight st)) (freeRectangles st) (sortedFree st)"
  unfolding sortedFree_def by (rule sort_by_sortOutcome) (auto simp: sortFreeRectsByZ_def)

lemma sortFreeSpace_sortOutcome: "sortOutcome freeSpaceLess fs (sortFreeSpace fs)"
  unfolding sortFreeSpace_def
  by (rule sort_by_sortOutcome) (auto simp: freeSpaceLess_def split: if_splits)

lemma sortOutcome_sorted_key:
  assumes "sortOutcome (sortFreeRectsByZ bw bh) as bs"
  shows "sorted (map (hash_val bw bh) bs)"
proof -
  have "(\<lambda>a b. \<not> sortFreeRectsByZ bw bh b a) = (\<lambda>a b. hash_val bw bh a \<le> hash_val bw bh b)"
    by (auto simp: sortFreeRectsByZ_def fun_eq_iff)
  with assms have "sorted_wrt (\<lambda>a b. hash_val bw bh a \<le> hash_val bw bh b) bs"
    by (simp add: sortOutcome_def)
  then show ?thesis by (simp add: sorted_map)
qed

lemma sortOutcome_set: "sortOutcome lt as bs \<Longrightarrow> set bs = set as"
  unfolding sortOutcome_def by (metis set_mset_mset)

lemma sortOutcome_Nil: "sortOutcome lt as bs \<Longrightarrow> bs = [] \<longleftrightarrow> as = []"
  unfolding sortOutcome_def by (metis mset_zero_iff)

section \<open>The up volume of the guillotine split\<close>

text \<open>
  Claim C7 says that the up volume spans the full footprint of the free volume, with
  the width and the height of the free volume. In the code the up volume has the
  footprint of the placed box; the bottom and the right volume keep the full depth of
  the free volume instead. Counterexample: the box \<open>(4,4,4)\<close> in the free volume
  \<open>(10,10,10)\<close> gives an up volume of width 4.
\<close>

theorem up_volume_counterexample:
  "SplitFreeRectByHeuristic \<lparr>x = 0, y = 0, z = 0, width = 10, height = 10, depth = 10\<rparr>
      \<lparr>x = 0, y = 0, z = 0, width = 4, height = 4, depth = 4\<rparr> SplitShorterLeftoverAxis =
     [\<lparr>x = 0, y = 0, z = 4, width = 4, height = 4, depth = 6\<rparr>,
      \<lparr>x = 0, y = 4, z = 0, width = 10, height = 6, depth = 10\<rparr>,
      \<lparr>x = 4, y = 0, z = 0, width = 6, height = 4, depth = 10\<rparr>] \<and>
   width \<lparr>x = 0, y = 0, z = 4, width = 4, height = 4, depth = 6\<rparr>
     \<noteq> width \<lparr>x = 0, y = 0, z = 0, width = 10, height = 10, depth = 10\<rparr>"
  by (simp add: g_eval)

text \<open>
  Claim C7 as amended: the up volume of a box placed into a free volume has the corner
  \<open>x, y\<close> of the free volume and the width and height of the placed box; it sits above
  the placed box in \<open>z\<close> and its depth is the depth of the free volume minus the depth
  of the placed box. The split produces it exactly when these three extents are
  positive: then it is the first volume the split appends, and the other volumes keep
  the \<open>z\<close> and the depth of the free volume; otherwise it is not among the volumes of
  the split, which all keep the \<open>z\<close> and the depth of the free volume. Every volume the
  split appends has positive extents.
\<close>

theorem up_volume_has_box_footprint:
  "(0 < width p \<and> 0 < height p \<and> depth p < depth f \<longrightarrow>
      (\<exists>rest. SplitFreeRectByHeuristic f p m =
           \<lparr>x = x f, y = y f, z = z f + depth p,
            width = width p, height = height p, depth = depth f - depth p\<rparr> # rest
         \<and> (\<forall>r \<in> set rest. z r = z f \<and> depth r = depth f)))
   \<and> (\<not> (0 < width p \<and> 0 < height p \<and> depth p < depth f) \<longrightarrow>
        \<lparr>x = x f, y = y f, z = z f + depth p,
         width = width p, height = height p, depth = depth f - depth p\<rparr>
          \<notin> set (SplitFreeRectByHeuristic f p m)
        \<and> (\<forall>r \<in> set (SplitFreeRectByHeuristic f p m). z r = z f \<and> depth r = depth f))
   \<and> (\<forall>r \<in> set (SplitFreeRectByHeuristic f p m). positive r)"
proof (intro conjI impI)
  assume "0 < width p \<and> 0 < height p \<and> depth p < depth f"
  then show "\<exists>rest. SplitFreeRectByHeuristic f p m =
           \<lparr>x = x f, y = y f, z = z f + depth p,
            width = width p, height = height p, depth = depth f - depth p\<rparr> # rest
         \<and> (\<forall>r \<in> set rest. z r = z f \<and> depth r = depth f)"
    by (auto simp: SplitFreeRectByHeuristic_def SplitFreeRectAlongAxis_def Let_def)
next
  show pos: "\<forall>r \<in> set (SplitFreeRectByHeuristic f p m). positive r"
    by (auto simp: SplitFreeRectByHeuristic_def SplitFreeRectAlongAxis_def Let_def positive_def)
  assume n: "\<not> (0 < width p \<and> 0 < height p \<and> depth p < depth f)"
  then have "\<not> positive \<lparr>x = x f, y = y f, z = z f + depth p,
         width = width p, height = height p, depth = depth f - depth p\<rparr>"
    by (auto simp: positive_def)
  with pos show "\<lparr>x = x f, y = y f, z = z f + depth p,
         width = width p, height = height p, depth = depth f - depth p\<rparr>
          \<notin> set (SplitFreeRectByHeuristic f p m)" by blast
  from n show "\<forall>r \<in> set (SplitFreeRectByHeuristic f p m). z r = z f \<and> depth r = depth f"
    by (auto simp: SplitFreeRectByHeuristic_def SplitFreeRectAlongAxis_def Let_def)
qed

theorem up_volume_has_box_footprint_witness:
  "hd (SplitFreeRectByHeuristic \<lparr>x = 0, y = 0, z = 0, width = 10, height = 10, depth = 10\<rparr>
      \<lparr>x = 0, y = 0, z = 0, width = 4, height = 4, depth = 4\<rparr> SplitShorterLeftoverAxis) =
    \<lparr>x = 0, y = 0, z = 4, width = 4, height = 4, depth = 6\<rparr>
   \<and> \<lparr>x = 0, y = 0, z = 10, width = 4, height = 4, depth = 0\<rparr>
       \<notin> set (SplitFreeRectByHeuristic
                \<lparr>x = 0, y = 0, z = 0, width = 10, height = 10, depth = 10\<rparr>
                \<lparr>x = 0, y = 0, z = 0, width = 4, height = 4, depth = 10\<rparr>
                SplitShorterLeftoverAxis)
   \<and> list_all (\<lambda>r. z r = 0 \<and> depth r = 10 \<and> positive r)
        (SplitFreeRectByHeuristic
                \<lparr>x = 0, y = 0, z = 0, width = 10, height = 10, depth = 10\<rparr>
                \<lparr>x = 0, y = 0, z = 0, width = 4, height = 4, depth = 10\<rparr>
                SplitShorterLeftoverAxis)"
  using up_volume_has_box_footprint [of "\<lparr>x = 0, y = 0, z = 0, width = 4, height = 4, depth = 4\<rparr>"
    "\<lparr>x = 0, y = 0, z = 0, width = 10, height = 10, depth = 10\<rparr>" SplitShorterLeftoverAxis]
    up_volume_has_box_footprint [of "\<lparr>x = 0, y = 0, z = 0, width = 4, height = 4, depth = 10\<rparr>"
    "\<lparr>x = 0, y = 0, z = 0, width = 10, height = 10, depth = 10\<rparr>" SplitShorterLeftoverAxis]
  by (auto simp: list_all_iff)

section \<open>Selection of the free volume in the single insert\<close>

text \<open>
  Claim C4 says that the single insert of the guillotine packer scores every fitting
  pair and selects the candidate of minimum score. In the code the lines that compute
  and compare the score are commented out and every fitting branch leaves the loop.
  Counterexample: after the box \<open>(4,4,4)\<close> in the container \<open>(10,10,10)\<close>, the request
  \<open>(4,4,5)\<close> with \<^verbatim>\<open>RectBestAreaFit\<close> is placed into the first volume of the sorted
  list, whose score is 160, although the third volume fits with score 16. The keys of
  the three free volumes are 400, 40 and 4, so the sort can leave them in one order
  only.
\<close>

theorem single_insert_ignores_score_counterexample:
  "FindPositionForNewNode
     \<lparr>binWidth = 10, binHeight = 10, binDepth = 10,
      usedRectangles = [\<lparr>x = 0, y = 0, z = 0, width = 4, height = 4, depth = 4\<rparr>],
      freeRectangles =
        [\<lparr>x = 0, y = 0, z = 4, width = 4, height = 4, depth = 6\<rparr>,
         \<lparr>x = 0, y = 4, z = 0, width = 10, height = 6, depth = 10\<rparr>,
         \<lparr>x = 4, y = 0, z = 0, width = 6, height = 4, depth = 10\<rparr>]\<rparr>
     4 4 5 RectBestAreaFit =
   (\<lparr>binWidth = 10, binHeight = 10, binDepth = 10,
     usedRectangles = [\<lparr>x = 0, y = 0, z = 0, width = 4, height = 4, depth = 4\<rparr>],
     freeRectangles =
        [\<lparr>x = 4, y = 0, z = 0, width = 6, height = 4, depth = 10\<rparr>,
         \<lparr>x = 0, y = 4, z = 0, width = 10, height = 6, depth = 10\<rparr>,
         \<lparr>x = 0, y = 0, z = 4, width = 4, height = 4, depth = 6\<rparr>]\<rparr>,
    \<lparr>x = 4, y = 0, z = 0, width = 4, height = 4, depth = 5\<rparr>, 0) \<and>
   ScoreByHeuristic 4 4 5 \<lparr>x = 4, y = 0, z = 0, width = 6, height = 4, depth = 10\<rparr>
     RectBestAreaFit = 160 \<and>
   Fits (sizeOf 4 4 5) \<lparr>x = 0, y = 0, z = 4, width = 4, height = 4, depth = 6\<rparr> \<and>
   ScoreByHeuristic 4 4 5 \<lparr>x = 0, y = 0, z = 4, width = 4, height = 4, depth = 6\<rparr>
     RectBestAreaFit = 16 \<and>
   G_Insert (G_Init 10 10 10) 4 4 4 False RectBestAreaFit SplitShorterLeftoverAxis =
     (\<lparr>x = 0, y = 0, z = 0, width = 4, height = 4, depth = 4\<rparr>,
      \<lparr>binWidth = 10, binHeight = 10, binDepth = 10,
       usedRectangles = [\<lparr>x = 0, y = 0, z = 0, width = 4, height = 4, depth = 4\<rparr>],
       freeRectangles =
        [\<lparr>x = 0, y = 0, z = 4, width = 4, height = 4, depth = 6\<rparr>,
         \<lparr>x = 0, y = 4, z = 0, width = 10, height = 6, depth = 10\<rparr>,
         \<lparr>x = 4, y = 0, z = 0, width = 6, height = 4, depth = 10\<rparr>]\<rparr>)"
  by (simp add: g_eval ScoreBestAreaFit_def Fits_sizeOf)

text \<open>
  The key is the 32-bit value. In the container \<open>(2000,2000,1000)\<close>, after the box
  \<open>(1000,2000,600)\<close> the free list is the up volume at \<open>z = 600\<close> and the right
  volume at \<open>x = 1000\<close>. The exact key of the up volume is 2400000000, its 32-bit
  key is negative and the sort puts it before the right volume of key 1000: the
  request \<open>(10,10,10)\<close> is placed at \<open>z = 600\<close>.
\<close>

lemma single_insert_key_wraps:
  "hash_val 2000 2000 \<lparr>x = 0, y = 0, z = 600, width = 1000, height = 2000, depth = 400\<rparr>
     = - 1894967296 \<and>
   hash_val 2000 2000 \<lparr>x = 1000, y = 0, z = 0, width = 1000, height = 2000, depth = 1000\<rparr>
     = 1000 \<and>
   freeRectangles (snd (G_Insert (G_Init 2000 2000 1000) 1000 2000 600 False RectBestAreaFit
       SplitShorterLeftoverAxis)) =
     [\<lparr>x = 0, y = 0, z = 600, width = 1000, height = 2000, depth = 400\<rparr>,
      \<lparr>x = 1000, y = 0, z = 0, width = 1000, height = 2000, depth = 1000\<rparr>] \<and>
   fst (snd (FindPositionForNewNode
     (snd (G_Insert (G_Init 2000 2000 1000) 1000 2000 600 False RectBestAreaFit
        SplitShorterLeftoverAxis))
     10 10 10 RectBestAreaFit)) = \<lparr>x = 0, y = 0, z = 600, width = 10, height = 10, depth = 10\<rparr>"
  by (simp add: g_eval)

text \<open>
  Claim C4 as amended: the single insert sorts the free list by the key
  \<open>x + y \<sqdot> binWidth + z \<sqdot> binWidth \<sqdot> binHeight\<close>, as 32-bit \<^verbatim>\<open>int\<close> arithmetic
  computes it, and selects the first free volume of the sorted list into which the box
  fits, upright or flipped; the box is placed at the corner of that volume, upright
  when it fits upright and flipped otherwise. This holds for every order in which the
  sort may leave the entries of equal key (the list \<open>fs\<close>), the order of \<open>sort_by\<close>
  being one of them; the scoring rule has no influence on the selection. A free list
  with a volume that fits is not empty, so the read of its first entry is inside the
  list.
\<close>

theorem single_insert_takes_first_fit:
  assumes "sortOutcome (sortFreeRectsByZ (binWidth st) (binHeight st)) (freeRectangles st) fs"
    and "\<exists>f \<in> set (freeRectangles st). Fits (sizeOf w h d) f"
  shows "\<exists>i. FindPositionForNewNodeOn fs st w h d rectChoice =
           (st\<lparr>freeRectangles := fs\<rparr>, orientedNode w h d (fs ! i), i)
         \<and> i < length fs
         \<and> Fits (sizeOf w h d) (fs ! i)
         \<and> (\<forall>k < i. \<not> Fits (sizeOf w h d) (fs ! k))
         \<and> sorted (map (hash_val (binWidth st) (binHeight st)) fs)
         \<and> mset fs = mset (freeRectangles st)
         \<and> fs \<noteq> []
         \<and> sortOutcome (sortFreeRectsByZ (binWidth st) (binHeight st)) (freeRectangles st)
             (sortedFree st)
         \<and> FindPositionForNewNode st w h d rectChoice =
             FindPositionForNewNodeOn (sortedFree st) st w h d rectChoice"
proof -
  from assms have ex: "\<exists>f \<in> set fs. Fits (sizeOf w h d) f"
    by (simp add: sortOutcome_set)
  then have ne: "fs \<noteq> []" by auto
  from findPositionFrom_first [OF ex, of rectChoice 0]
  obtain j where j: "j < length fs"
    "findPositionFrom w h d rectChoice 0 fs = (orientedNode w h d (fs ! j), j)"
    "Fits (sizeOf w h d) (fs ! j)" "\<forall>l < j. \<not> Fits (sizeOf w h d) (fs ! l)"
    by auto
  have m: "mset fs = mset (freeRectangles st)" using assms(1) by (simp add: sortOutcome_def)
  have e: "FindPositionForNewNode st w h d rectChoice =
             FindPositionForNewNodeOn (sortedFree st) st w h d rectChoice"
    by (simp add: FindPositionForNewNode_def sortedFree_def)
  from j ne m e show ?thesis
    by (intro exI [of _ j])
       (simp add: FindPositionForNewNodeOn_def sortOutcome_sorted_key [OF assms(1)]
          sortedFree_sortOutcome)
qed

theorem single_insert_takes_first_fit_witness:
  "sortOutcome (sortFreeRectsByZ 10 10)
     [\<lparr>x = 0, y = 0, z = 4, width = 4, height = 4, depth = 6\<rparr>,
      \<lparr>x = 0, y = 4, z = 0, width = 10, height = 6, depth = 10\<rparr>,
      \<lparr>x = 4, y = 0, z = 0, width = 6, height = 4, depth = 10\<rparr>]
     [\<lparr>x = 4, y = 0, z = 0, width = 6, height = 4, depth = 10\<rparr>,
      \<lparr>x = 0, y = 4, z = 0, width = 10, height = 6, depth = 10\<rparr>,
      \<lparr>x = 0, y = 0, z = 4, width = 4, height = 4, depth = 6\<rparr>] \<and>
   (\<exists>f \<in> set (freeRectangles (snd (G_Insert (G_Init 10 10 10) 4 4 4 False RectBestAreaFit
        SplitShorterLeftoverAxis))). Fits (sizeOf 4 4 5) f) \<and>
   fst (snd (FindPositionForNewNodeOn
     [\<lparr>x = 4, y = 0, z = 0, width = 6, height = 4, depth = 10\<rparr>,
      \<lparr>x = 0, y = 4, z = 0, width = 10, height = 6, depth = 10\<rparr>,
      \<lparr>x = 0, y = 0, z = 4, width = 4, height = 4, depth = 6\<rparr>]
     (snd (G_Insert (G_Init 10 10 10) 4 4 4 False RectBestAreaFit SplitShorterLeftoverAxis))
     4 4 5 RectBestAreaFit)) = \<lparr>x = 4, y = 0, z = 0, width = 4, height = 4, depth = 5\<rparr>"
proof -
  let ?st = "snd (G_Insert (G_Init 10 10 10) 4 4 4 False RectBestAreaFit SplitShorterLeftoverAxis)"
  let ?fs = "[\<lparr>x = 4, y = 0, z = 0, width = 6, height = 4, depth = 10\<rparr>,
      \<lparr>x = 0, y = 4, z = 0, width = 10, height = 6, depth = 10\<rparr>,
      \<lparr>x = 0, y = 0, z = 4, width = 4, height = 4, depth = 6\<rparr>]"
  have fr: "freeRectangles ?st =
        [\<lparr>x = 0, y = 0, z = 4, width = 4, height = 4, depth = 6\<rparr>,
         \<lparr>x = 0, y = 4, z = 0, width = 10, height = 6, depth = 10\<rparr>,
         \<lparr>x = 4, y = 0, z = 0, width = 6, height = 4, depth = 10\<rparr>]"
    and bw: "binWidth ?st = 10" and bh: "binHeight ?st = 10"
    by (simp_all add: g_eval)
  have h: "\<exists>f \<in> set (freeRectangles ?st). Fits (sizeOf 4 4 5) f"
    by (simp add: fr Fits_sizeOf)
  have so: "sortOutcome (sortFreeRectsByZ 10 10)
     [\<lparr>x = 0, y = 0, z = 4, width = 4, height = 4, depth = 6\<rparr>,
      \<lparr>x = 0, y = 4, z = 0, width = 10, height = 6, depth = 10\<rparr>,
      \<lparr>x = 4, y = 0, z = 0, width = 6, height = 4, depth = 10\<rparr>] ?fs"
    by (simp add: sortOutcome_def sortFreeRectsByZ_def hash_val_def int32_def)
  then have so': "sortOutcome (sortFreeRectsByZ (binWidth ?st) (binHeight ?st))
      (freeRectangles ?st) ?fs"
    by (simp only: fr bw bh)
  from single_insert_takes_first_fit [OF so' h, of RectBestAreaFit]
  obtain i where i: "FindPositionForNewNodeOn ?fs ?st 4 4 5 RectBestAreaFit =
           (?st\<lparr>freeRectangles := ?fs\<rparr>, orientedNode 4 4 5 (?fs ! i), i)"
    "Fits (sizeOf 4 4 5) (?fs ! i)"
    "\<forall>k < i. \<not> Fits (sizeOf 4 4 5) (?fs ! k)" by blast
  have "i = 0"
  proof (rule ccontr)
    assume "i \<noteq> 0"
    then have "0 < i" by simp
    with i(3) have "\<not> Fits (sizeOf 4 4 5) (?fs ! 0)" by blast
    then show False by (simp add: Fits_sizeOf)
  qed
  with i(1) have "fst (snd (FindPositionForNewNodeOn ?fs ?st 4 4 5 RectBestAreaFit)) =
      orientedNode 4 4 5 (?fs ! 0)" by simp
  then show ?thesis using h so by (simp add: orientedNode_def)
qed

section \<open>An insert that fits nowhere\<close>

text \<open>
  Claim C5 says that an insert that fits nowhere leaves the state unchanged, the order
  of the free list included. Both packers sort the free list in place before they
  search. Counterexample: after the box \<open>(4,4,4)\<close> in the container \<open>(10,10,10)\<close> the
  free list of the guillotine packer is up, bottom, right; the request \<open>(20,20,20)\<close>
  fits nowhere and leaves the list as right, bottom, up. The keys of the three volumes
  are 400, 40 and 4, so the sort can leave them in one order only.
\<close>

theorem no_fit_reorders_free_list_counterexample:
  "snd (G_Insert (G_Init 10 10 10) 4 4 4 False RectBestAreaFit SplitShorterLeftoverAxis) =
     \<lparr>binWidth = 10, binHeight = 10, binDepth = 10,
      usedRectangles = [\<lparr>x = 0, y = 0, z = 0, width = 4, height = 4, depth = 4\<rparr>],
      freeRectangles =
        [\<lparr>x = 0, y = 0, z = 4, width = 4, height = 4, depth = 6\<rparr>,
         \<lparr>x = 0, y = 4, z = 0, width = 10, height = 6, depth = 10\<rparr>,
         \<lparr>x = 4, y = 0, z = 0, width = 6, height = 4, depth = 10\<rparr>]\<rparr> \<and>
   list_all (\<lambda>f. \<not> Fits (sizeOf 20 20 20) f)
        [\<lparr>x = 0, y = 0, z = 4, width = 4, height = 4, depth = 6\<rparr>,
         \<lparr>x = 0, y = 4, z = 0, width = 10, height = 6, depth = 10\<rparr>,
         \<lparr>x = 4, y = 0, z = 0, width = 6, height = 4, depth = 10\<rparr>] \<and>
   G_Insert
     \<lparr>binWidth = 10, binHeight = 10, binDepth = 10,
      usedRectangles = [\<lparr>x = 0, y = 0, z = 0, width = 4, height = 4, depth = 4\<rparr>],
      freeRectangles =
        [\<lparr>x = 0, y = 0, z = 4, width = 4, height = 4, depth = 6\<rparr>,
         \<lparr>x = 0, y = 4, z = 0, width = 10, height = 6, depth = 10\<rparr>,
         \<lparr>x = 4, y = 0, z = 0, width = 6, height = 4, depth = 10\<rparr>]\<rparr>
     20 20 20 False RectBestAreaFit SplitShorterLeftoverAxis =
   (\<lparr>x = 0, y = 0, z = 0, width = 0, height = 0, depth = 0\<rparr>,
    \<lparr>binWidth = 10, binHeight = 10, binDepth = 10,
     usedRectangles = [\<lparr>x = 0, y = 0, z = 0, width = 4, height = 4, depth = 4\<rparr>],
     freeRectangles =
        [\<lparr>x = 4, y = 0, z = 0, width = 6, height = 4, depth = 10\<rparr>,
         \<lparr>x = 0, y = 4, z = 0, width = 10, height = 6, depth = 10\<rparr>,
         \<lparr>x = 0, y = 0, z = 4, width = 4, height = 4, depth = 6\<rparr>]\<rparr>) \<and>
   [\<lparr>x = 4, y = 0, z = 0, width = 6, height = 4, depth = 10\<rparr>,
    \<lparr>x = 0, y = 4, z = 0, width = 10, height = 6, depth = 10\<rparr>,
    \<lparr>x = 0, y = 0, z = 4, width = 4, height = 4, depth = 6\<rparr>] \<noteq>
   [\<lparr>x = 0, y = 0, z = 4, width = 4, height = 4, depth = 6\<rparr>,
    \<lparr>x = 0, y = 4, z = 0, width = 10, height = 6, depth = 10\<rparr>,
    \<lparr>x = 4, y = 0, z = 0, width = 6, height = 4, depth = 10\<rparr>]"
  by (simp add: g_eval Fits_sizeOf)

text \<open>
  Claim C5 as amended. Let \<open>gs\<close> and \<open>ms\<close> be the free lists as the sort of the
  guillotine packer and of the max-rects packer may leave them: the same entries, in
  ascending order of the 32-bit key or of \<open>(y, z, x)\<close>, entries that compare equal in
  any order. A single insert of either packer that returns a node of height zero,
  which is the test the code uses for a box that was not placed, leaves the container
  sizes and the placed-box list unchanged, and the free list is the sorted list. The
  node is the all-zero box when the box fits into no free volume of the guillotine
  packer, and when no free volume of the max-rects packer takes the box: in each
  orientation, the extent test or the support test fails or a placed box blocks the
  node. The single insert of the guillotine packer on an empty free list reads
  \<^verbatim>\<open>freeRectangles[0]\<close> outside the list. The inserts with the order of \<open>sort_by\<close>
  are instances.
\<close>

theorem no_fit_keeps_state_up_to_order:
  assumes "sortOutcome (sortFreeRectsByZ (binWidth g) (binHeight g)) (freeRectangles g) gs"
    and "sortOutcome freeSpaceLess (freeRectangles m) ms"
  shows
    "(freeRectangles g = [] \<longrightarrow>
        G_InsertChecked gs g w h d merge rectChoice splitMethod = Inl OutOfBounds)
     \<and> (freeRectangles g \<noteq> [] \<longrightarrow>
          (\<exists>r g'. G_InsertChecked gs g w h d merge rectChoice splitMethod = Inr (r, g')
             \<and> ((\<forall>f \<in> set (freeRectangles g). \<not> Fits (sizeOf w h d) f) \<longrightarrow> r = zeroRect)
             \<and> (height r = 0 \<longrightarrow> g' = g\<lparr>freeRectangles := gs\<rparr>)))
     \<and> sorted (map (hash_val (binWidth g) (binHeight g)) gs)
     \<and> mset gs = mset (freeRectangles g)
     \<and> (\<exists>r m'. M_InsertOn ms m w' h' d' = (r, m')
           \<and> ((\<forall>f \<in> set (freeRectangles m).
                  \<not> M_Accepts (binAllowFlip m) (usedRectangles m) w' h' d' f) \<longrightarrow> r = zeroRect)
           \<and> (height r = 0 \<longrightarrow> m' = m\<lparr>freeRectangles := ms\<rparr>))
     \<and> sorted_wrt (\<lambda>a b. \<not> freeSpaceLess b a) ms
     \<and> mset ms = mset (freeRectangles m)
     \<and> sortOutcome (sortFreeRectsByZ (binWidth g) (binHeight g)) (freeRectangles g)
          (sortedFree g)
     \<and> G_Insert g w h d merge rectChoice splitMethod =
          G_InsertOn (sortedFree g) g w h d merge rectChoice splitMethod
     \<and> sortOutcome freeSpaceLess (freeRectangles m) (sortFreeSpace (freeRectangles m))
     \<and> M_Insert m w' h' d' = M_InsertOn (sortFreeSpace (freeRectangles m)) m w' h' d'"
proof -
  have c1: "freeRectangles g = [] \<longrightarrow>
        G_InsertChecked gs g w h d merge rectChoice splitMethod = Inl OutOfBounds"
    using sortOutcome_Nil [OF assms(1)] by (simp add: G_InsertChecked_def)
  have c2: "freeRectangles g \<noteq> [] \<longrightarrow>
          (\<exists>r g'. G_InsertChecked gs g w h d merge rectChoice splitMethod = Inr (r, g')
             \<and> ((\<forall>f \<in> set (freeRectangles g). \<not> Fits (sizeOf w h d) f) \<longrightarrow> r = zeroRect)
             \<and> (height r = 0 \<longrightarrow> g' = g\<lparr>freeRectangles := gs\<rparr>))"
  proof
    assume "freeRectangles g \<noteq> []"
    then have ne: "gs \<noteq> []" using sortOutcome_Nil [OF assms(1)] by simp
    obtain n i where ni: "findPositionFrom w h d rectChoice 0 gs = (n, i)"
      by (cases "findPositionFrom w h d rectChoice 0 gs")
    obtain r g' where rg: "G_InsertOn gs g w h d merge rectChoice splitMethod = (r, g')"
      by (cases "G_InsertOn gs g w h d merge rectChoice splitMethod")
    have rn: "r = n" using rg ni
      by (auto simp: G_InsertOn_def FindPositionForNewNodeOn_def Let_def split: if_splits)
    have st: "height r = 0 \<longrightarrow> g' = g\<lparr>freeRectangles := gs\<rparr>" using rg ni
      by (auto simp: G_InsertOn_def FindPositionForNewNodeOn_def Let_def split: if_splits)
    have z: "(\<forall>f \<in> set (freeRectangles g). \<not> Fits (sizeOf w h d) f) \<longrightarrow> r = zeroRect"
    proof
      assume "\<forall>f \<in> set (freeRectangles g). \<not> Fits (sizeOf w h d) f"
      then have "\<forall>f \<in> set gs. \<not> Fits (sizeOf w h d) f"
        by (simp add: sortOutcome_set [OF assms(1)])
      from findPositionFrom_none [OF this, of rectChoice 0] ni rn show "r = zeroRect" by simp
    qed
    from ne rg st z show "\<exists>r g'. G_InsertChecked gs g w h d merge rectChoice splitMethod = Inr (r, g')
             \<and> ((\<forall>f \<in> set (freeRectangles g). \<not> Fits (sizeOf w h d) f) \<longrightarrow> r = zeroRect)
             \<and> (height r = 0 \<longrightarrow> g' = g\<lparr>freeRectangles := gs\<rparr>)"
      by (simp add: G_InsertChecked_def)
  qed
  have c3: "sorted (map (hash_val (binWidth g) (binHeight g)) gs)"
    by (rule sortOutcome_sorted_key [OF assms(1)])
  have c4: "mset gs = mset (freeRectangles g)" using assms(1) by (simp add: sortOutcome_def)
  have c5: "\<exists>r m'. M_InsertOn ms m w' h' d' = (r, m')
           \<and> ((\<forall>f \<in> set (freeRectangles m).
                  \<not> M_Accepts (binAllowFlip m) (usedRectangles m) w' h' d' f) \<longrightarrow> r = zeroRect)
           \<and> (height r = 0 \<longrightarrow> m' = m\<lparr>freeRectangles := ms\<rparr>)"
  proof -
    let ?n = "FindPositionForNewNodeBottomLeft (binAllowFlip m) (usedRectangles m) w' h' d'
        False ms"
    obtain r m' where rm: "M_InsertOn ms m w' h' d' = (r, m')"
      by (cases "M_InsertOn ms m w' h' d'")
    have rn: "r = ?n" using rm
      by (auto simp: M_InsertOn_def Let_def split: if_splits prod.splits)
    have st: "height r = 0 \<longrightarrow> m' = m\<lparr>freeRectangles := ms\<rparr>" using rm
      by (auto simp: M_InsertOn_def Let_def split: if_splits prod.splits)
    have z: "(\<forall>f \<in> set (freeRectangles m).
        \<not> M_Accepts (binAllowFlip m) (usedRectangles m) w' h' d' f) \<longrightarrow> r = zeroRect"
    proof
      assume "\<forall>f \<in> set (freeRectangles m).
        \<not> M_Accepts (binAllowFlip m) (usedRectangles m) w' h' d' f"
      then have "\<forall>f \<in> set ms. \<not> M_Accepts (binAllowFlip m) (usedRectangles m) w' h' d' f"
        by (simp add: sortOutcome_set [OF assms(2)])
      from FindBL_none [OF this, of False] rn show "r = zeroRect" by simp
    qed
    from rm st z show ?thesis by blast
  qed
  have c6: "sorted_wrt (\<lambda>a b. \<not> freeSpaceLess b a) ms" "mset ms = mset (freeRectangles m)"
    using assms(2) by (simp_all add: sortOutcome_def)
  have c7: "G_Insert g w h d merge rectChoice splitMethod =
          G_InsertOn (sortedFree g) g w h d merge rectChoice splitMethod"
    by (simp add: G_Insert_def sortedFree_def)
  have c8: "M_Insert m w' h' d' = M_InsertOn (sortFreeSpace (freeRectangles m)) m w' h' d'"
    by (simp add: M_Insert_def)
  from c1 c2 c3 c4 c5 c6 c7 c8 sortedFree_sortOutcome [of g]
    sortFreeSpace_sortOutcome [of "freeRectangles m"]
  show ?thesis by (intro conjI)
qed

theorem no_fit_keeps_state_up_to_order_witness:
  "G_InsertChecked
      [\<lparr>x = 4, y = 0, z = 0, width = 6, height = 4, depth = 10\<rparr>,
       \<lparr>x = 0, y = 4, z = 0, width = 10, height = 6, depth = 10\<rparr>,
       \<lparr>x = 0, y = 0, z = 4, width = 4, height = 4, depth = 6\<rparr>]
      (snd (G_Insert (G_Init 10 10 10) 4 4 4 False RectBestAreaFit SplitShorterLeftoverAxis))
      20 20 20 False RectBestAreaFit SplitShorterLeftoverAxis =
     Inr (zeroRect,
      \<lparr>binWidth = 10, binHeight = 10, binDepth = 10,
       usedRectangles = [\<lparr>x = 0, y = 0, z = 0, width = 4, height = 4, depth = 4\<rparr>],
       freeRectangles =
        [\<lparr>x = 4, y = 0, z = 0, width = 6, height = 4, depth = 10\<rparr>,
         \<lparr>x = 0, y = 4, z = 0, width = 10, height = 6, depth = 10\<rparr>,
         \<lparr>x = 0, y = 0, z = 4, width = 4, height = 4, depth = 6\<rparr>]\<rparr>) \<and>
   freeRectangles
     (snd (G_Insert (G_Init 10 10 10) 10 10 10 False RectBestAreaFit SplitShorterLeftoverAxis))
     = [] \<and>
   G_InsertChecked []
      (snd (G_Insert (G_Init 10 10 10) 10 10 10 False RectBestAreaFit SplitShorterLeftoverAxis))
      1 1 1 False RectBestAreaFit SplitShorterLeftoverAxis = Inl OutOfBounds \<and>
   list_ex (\<lambda>f. width f \<ge> 6 \<and> height f \<ge> 6 \<and> depth f \<ge> 4)
     (freeRectangles (M_run (M_Init 10 10 10 True) [(4, 4, 4), (10, 10, 6)])) \<and>
   M_InsertOn
      [\<lparr>x = 4, y = 0, z = 0, width = 6, height = 10, depth = 4,
        supportx0 = 4, supportx1 = 10, supporty0 = 0, supporty1 = 10\<rparr>,
       \<lparr>x = 0, y = 4, z = 0, width = 10, height = 6, depth = 4,
        supportx0 = 0, supportx1 = 10, supporty0 = 4, supporty1 = 10\<rparr>]
      (M_run (M_Init 10 10 10 True) [(4, 4, 4), (10, 10, 6)]) 6 6 4 =
     (zeroRect,
      \<lparr>binWidth = 10, binHeight = 10, binDepth = 10,
       usedRectangles =
         [\<lparr>x = 0, y = 0, z = 0, width = 4, height = 4, depth = 4\<rparr>,
          \<lparr>x = 0, y = 0, z = 4, width = 10, height = 10, depth = 6\<rparr>],
       freeRectangles =
         [\<lparr>x = 4, y = 0, z = 0, width = 6, height = 10, depth = 4,
           supportx0 = 4, supportx1 = 10, supporty0 = 0, supporty1 = 10\<rparr>,
          \<lparr>x = 0, y = 4, z = 0, width = 10, height = 6, depth = 4,
           supportx0 = 0, supportx1 = 10, supporty0 = 4, supporty1 = 10\<rparr>],
       binAllowFlip = True\<rparr>)"
proof -
  let ?g = "snd (G_Insert (G_Init 10 10 10) 4 4 4 False RectBestAreaFit SplitShorterLeftoverAxis)"
  let ?e = "snd (G_Insert (G_Init 10 10 10) 10 10 10 False RectBestAreaFit
      SplitShorterLeftoverAxis)"
  let ?m = "M_run (M_Init 10 10 10 True) [(4, 4, 4), (10, 10, 6)]"
  let ?gs = "[\<lparr>x = 4, y = 0, z = 0, width = 6, height = 4, depth = 10\<rparr>,
       \<lparr>x = 0, y = 4, z = 0, width = 10, height = 6, depth = 10\<rparr>,
       \<lparr>x = 0, y = 0, z = 4, width = 4, height = 4, depth = 6\<rparr>]"
  let ?ms = "[\<lparr>x = 4, y = 0, z = 0, width = 6, height = 10, depth = 4,
        supportx0 = 4, supportx1 = 10, supporty0 = 0, supporty1 = 10\<rparr>,
       \<lparr>x = 0, y = 4, z = 0, width = 10, height = 6, depth = 4,
        supportx0 = 0, supportx1 = 10, supporty0 = 4, supporty1 = 10\<rparr>]"
  have g: "?g = \<lparr>binWidth = 10, binHeight = 10, binDepth = 10,
      usedRectangles = [\<lparr>x = 0, y = 0, z = 0, width = 4, height = 4, depth = 4\<rparr>],
      freeRectangles =
        [\<lparr>x = 0, y = 0, z = 4, width = 4, height = 4, depth = 6\<rparr>,
         \<lparr>x = 0, y = 4, z = 0, width = 10, height = 6, depth = 10\<rparr>,
         \<lparr>x = 4, y = 0, z = 0, width = 6, height = 4, depth = 10\<rparr>]\<rparr>"
    by (simp add: g_eval)
  have e: "?e = \<lparr>binWidth = 10, binHeight = 10, binDepth = 10,
      usedRectangles = [\<lparr>x = 0, y = 0, z = 0, width = 10, height = 10, depth = 10\<rparr>],
      freeRectangles = []\<rparr>"
    by (simp add: g_eval)
  have m: "?m = \<lparr>binWidth = 10, binHeight = 10, binDepth = 10,
       usedRectangles =
         [\<lparr>x = 0, y = 0, z = 0, width = 4, height = 4, depth = 4\<rparr>,
          \<lparr>x = 0, y = 0, z = 4, width = 10, height = 10, depth = 6\<rparr>],
       freeRectangles = ?ms,
       binAllowFlip = True\<rparr>"
    by (simp add: m_eval)
  have sg: "sortOutcome (sortFreeRectsByZ (binWidth ?g) (binHeight ?g)) (freeRectangles ?g) ?gs"
    unfolding g by (simp add: sortOutcome_def sortFreeRectsByZ_def hash_val_def int32_def)
  have se: "sortOutcome (sortFreeRectsByZ (binWidth ?e) (binHeight ?e)) (freeRectangles ?e) []"
    unfolding e by (simp add: sortOutcome_def)
  have sm: "sortOutcome freeSpaceLess (freeRectangles ?m) ?ms"
    unfolding m by (simp add: sortOutcome_def freeSpaceLess_def)
  have ng: "freeRectangles ?g \<noteq> []" "\<forall>f \<in> set (freeRectangles ?g). \<not> Fits (sizeOf 20 20 20) f"
    unfolding g by (simp_all add: Fits_sizeOf)
  have ee: "freeRectangles ?e = []" unfolding e by simp
  have nm: "\<forall>f \<in> set (freeRectangles ?m).
      \<not> M_Accepts (binAllowFlip ?m) (usedRectangles ?m) 6 6 4 f"
    unfolding m by (simp add: M_Accepts_def isBlocked_def)
  have fit: "list_ex (\<lambda>f. width f \<ge> 6 \<and> height f \<ge> 6 \<and> depth f \<ge> 4) (freeRectangles ?m)"
    unfolding m by simp
  note t = no_fit_keeps_state_up_to_order [OF sg sm, of 20 20 20 False RectBestAreaFit
      SplitShorterLeftoverAxis 6 6 4]
  from t ng obtain r g' where
    rg: "G_InsertChecked ?gs ?g 20 20 20 False RectBestAreaFit SplitShorterLeftoverAxis
          = Inr (r, g')" "r = zeroRect" "height r = 0 \<longrightarrow> g' = ?g\<lparr>freeRectangles := ?gs\<rparr>"
    by blast
  from t nm obtain r' m' where
    rm: "M_InsertOn ?ms ?m 6 6 4 = (r', m')" "r' = zeroRect"
      "height r' = 0 \<longrightarrow> m' = ?m\<lparr>freeRectangles := ?ms\<rparr>"
    by blast
  from no_fit_keeps_state_up_to_order [OF se sm, of 1 1 1 False RectBestAreaFit
      SplitShorterLeftoverAxis 6 6 4] ee
  have oob: "G_InsertChecked [] ?e 1 1 1 False RectBestAreaFit SplitShorterLeftoverAxis
      = Inl OutOfBounds" by blast
  from rg have 1: "G_InsertChecked ?gs ?g 20 20 20 False RectBestAreaFit SplitShorterLeftoverAxis
          = Inr (zeroRect, ?g\<lparr>freeRectangles := ?gs\<rparr>)" by (simp add: zeroRect_def)
  from rm have 2: "M_InsertOn ?ms ?m 6 6 4 = (zeroRect, ?m\<lparr>freeRectangles := ?ms\<rparr>)"
    by (simp add: zeroRect_def)
  have 3: "?g\<lparr>freeRectangles := ?gs\<rparr> = \<lparr>binWidth = 10, binHeight = 10, binDepth = 10,
       usedRectangles = [\<lparr>x = 0, y = 0, z = 0, width = 4, height = 4, depth = 4\<rparr>],
       freeRectangles = ?gs\<rparr>" unfolding g by simp
  have 4: "?m\<lparr>freeRectangles := ?ms\<rparr> = \<lparr>binWidth = 10, binHeight = 10, binDepth = 10,
       usedRectangles =
         [\<lparr>x = 0, y = 0, z = 0, width = 4, height = 4, depth = 4\<rparr>,
          \<lparr>x = 0, y = 0, z = 4, width = 10, height = 10, depth = 6\<rparr>],
       freeRectangles = ?ms,
       binAllowFlip = True\<rparr>" unfolding m by simp
  from 1 2 oob ee fit show ?thesis unfolding 3 4 by (intro conjI)
qed

section \<open>Degenerate volumes\<close>

text \<open>
  Claim C9 says that the two-box disjointness predicate treats a degenerate box as
  disjoint from every volume and that an insert request with a zero extent places
  nothing. The static test \<^verbatim>\<open>Disjoint(a, b)\<close> has no guard for degenerate boxes, and
  the inserts return early only when the height of the node that was found is zero,
  which is their sign for "no fit". Counterexample: the request \<open>(0,5,5)\<close> on a fresh
  guillotine packer appends the box of width 0 to the placed boxes, and the box of
  width 0 at \<open>x = 1\<close> is not \<^verbatim>\<open>Disjoint\<close> from the box \<open>(5,5,5)\<close> at the origin.
\<close>

theorem degenerate_request_is_placed_counterexample:
  "G_Insert (G_Init 10 10 10) 0 5 5 False RectBestAreaFit SplitShorterLeftoverAxis =
     (\<lparr>x = 0, y = 0, z = 0, width = 0, height = 5, depth = 5\<rparr>,
      \<lparr>binWidth = 10, binHeight = 10, binDepth = 10,
       usedRectangles = [\<lparr>x = 0, y = 0, z = 0, width = 0, height = 5, depth = 5\<rparr>],
       freeRectangles = [\<lparr>x = 0, y = 0, z = 0, width = 10, height = 10, depth = 10\<rparr>]\<rparr>) \<and>
   \<not> Disjoint \<lparr>x = 1, y = 0, z = 0, width = 0, height = 5, depth = 5\<rparr>
       \<lparr>x = 0, y = 0, z = 0, width = 5, height = 5, depth = 5\<rparr>"
  by (simp add: g_eval Disjoint_def)

lemma split_positive: "list_all positive (SplitFreeRectByHeuristic f p m)"
  by (simp add: SplitFreeRectByHeuristic_def SplitFreeRectAlongAxis_def Let_def positive_def)

lemma G_Insert_used:
  "usedRectangles (snd (G_Insert g w h d merge rc sm)) =
     (if height (fst (G_Insert g w h d merge rc sm)) = 0 then usedRectangles g
      else usedRectangles g @ [fst (G_Insert g w h d merge rc sm)])"
  by (simp add: G_Insert_eq FindPositionForNewNode_eq Let_def split: prod.splits)

lemma M_Insert_used:
  "usedRectangles (snd (M_Insert m w h d)) =
     (if height (fst (M_Insert m w h d)) = 0 then usedRectangles m
      else usedRectangles m @ [fst (M_Insert m w h d)])"
  by (simp add: M_Insert_eq Let_def split: prod.splits)

text \<open>
  Claim C9 as amended: the check of the collection against its stored boxes,
  \<^verbatim>\<open>Disjoint(r)\<close>, and \<^verbatim>\<open>Add(r)\<close> treat a degenerate \<open>r\<close> as disjoint from
  everything (\<^verbatim>\<open>Add\<close> reports success and stores nothing); the guillotine split
  appends only free volumes with positive extents; and an insert of either packer
  places nothing when the node it found has height zero, otherwise it appends exactly
  that node to the placed boxes.
\<close>

theorem degenerate_volumes_where_guarded:
  "((width r = 0 \<or> height r = 0 \<or> depth r = 0) \<longrightarrow>
      DisjointAll rects r \<and> Add rects r = (True, rects))
   \<and> list_all positive (SplitFreeRectByHeuristic f p splitMethod)
   \<and> usedRectangles (snd (G_Insert g w h d merge rectChoice splitMethod')) =
       (if height (fst (G_Insert g w h d merge rectChoice splitMethod')) = 0
        then usedRectangles g
        else usedRectangles g @ [fst (G_Insert g w h d merge rectChoice splitMethod')])
   \<and> usedRectangles (snd (M_Insert m w' h' d')) =
       (if height (fst (M_Insert m w' h' d')) = 0 then usedRectangles m
        else usedRectangles m @ [fst (M_Insert m w' h' d')])"
  by (simp only: split_positive G_Insert_used M_Insert_used) (simp add: DisjointAll_def Add_def)

theorem degenerate_volumes_where_guarded_witness:
  "DisjointAll [\<lparr>x = 0, y = 0, z = 0, width = 5, height = 5, depth = 5\<rparr>]
      \<lparr>x = 1, y = 0, z = 0, width = 0, height = 5, depth = 5\<rparr> \<and>
   Add [\<lparr>x = 0, y = 0, z = 0, width = 5, height = 5, depth = 5\<rparr>]
      \<lparr>x = 1, y = 0, z = 0, width = 0, height = 5, depth = 5\<rparr> =
     (True, [\<lparr>x = 0, y = 0, z = 0, width = 5, height = 5, depth = 5\<rparr>]) \<and>
   usedRectangles (snd (G_Insert (G_Init 10 10 10) 5 0 5 False RectBestAreaFit
      SplitShorterLeftoverAxis)) = [] \<and>
   usedRectangles (snd (M_Insert (M_Init 10 10 10 True) 5 0 5)) = []"
proof -
  have hg: "height (fst (G_Insert (G_Init 10 10 10) 5 0 5 False RectBestAreaFit
      SplitShorterLeftoverAxis)) = 0"
    by (simp add: g_eval)
  have hm: "height (fst (M_Insert (M_Init 10 10 10 True) 5 0 5)) = 0"
    by (simp add: m_eval)
  have ug: "usedRectangles (G_Init 10 10 10) = []" by (simp add: G_Init_def)
  have um: "usedRectangles (M_Init 10 10 10 True) = []" by (simp add: M_Init_def)
  from degenerate_volumes_where_guarded
    [of "\<lparr>x = 1, y = 0, z = 0, width = 0, height = 5, depth = 5\<rparr>"
        "[\<lparr>x = 0, y = 0, z = 0, width = 5, height = 5, depth = 5\<rparr>]"
        _ _ _ "G_Init 10 10 10" 5 0 5 False RectBestAreaFit SplitShorterLeftoverAxis
        "M_Init 10 10 10 True" 5 0 5]
  show ?thesis by (simp add: hg hm ug um)
qed

section \<open>Non-overlap of the placed boxes\<close>

subsection \<open>Disjointness of lists of boxes\<close>

lemma Disjoint_sym: "Disjoint a b \<longleftrightarrow> Disjoint b a"
  by (auto simp: Disjoint_def)

lemma pairwiseDisjoint_sorted_wrt: "pairwiseDisjoint rs \<longleftrightarrow> sorted_wrt Disjoint rs"
  by (induction rs) (auto simp: list_all_iff)

lemma pairwiseDisjoint_append:
  "pairwiseDisjoint (as @ bs) \<longleftrightarrow>
     pairwiseDisjoint as \<and> pairwiseDisjoint bs \<and> (\<forall>a \<in> set as. \<forall>b \<in> set bs. Disjoint a b)"
  by (simp add: pairwiseDisjoint_sorted_wrt sorted_wrt_append)

lemma pairwiseDisjoint_insort_by:
  "pairwiseDisjoint (insort_by lt a bs) \<longleftrightarrow> list_all (Disjoint a) bs \<and> pairwiseDisjoint bs"
proof (induction bs)
  case Nil
  show ?case by simp
next
  case (Cons b bs)
  have s: "set (insort_by lt a bs) = insert a (set bs)"
    using mset_insort_by [of lt a bs] by (metis set_mset_add_mset_insert set_mset_mset)
  show ?case using Cons by (auto simp: list_all_iff s Disjoint_sym [of a b])
qed

lemma pairwiseDisjoint_sort_by: "pairwiseDisjoint (sort_by lt as) \<longleftrightarrow> pairwiseDisjoint as"
proof (induction as)
  case Nil
  show ?case by (simp add: sort_by_def)
next
  case (Cons a as)
  have "sort_by lt (a # as) = insort_by lt a (sort_by lt as)" by (simp add: sort_by_def)
  then show ?case using Cons by (simp add: pairwiseDisjoint_insort_by list_all_iff set_sort_by)
qed

lemma erase_append: "i < length as \<Longrightarrow> erase (as @ bs) i = erase as i @ bs"
  by (simp add: erase_def)

lemma set_erase_subset: "set (erase as i) \<subseteq> set as"
  unfolding erase_def by (auto dest: in_set_takeD in_set_dropD)

lemma pairwiseDisjoint_erase:
  assumes "pairwiseDisjoint fs" and "i < length fs"
  shows "pairwiseDisjoint (erase fs i)" and "\<forall>g \<in> set (erase fs i). Disjoint g (fs ! i)"
proof -
  have "fs = take i fs @ fs ! i # drop (Suc i) fs" using assms(2) by (rule id_take_nth_drop)
  with assms(1) have p: "pairwiseDisjoint (take i fs @ fs ! i # drop (Suc i) fs)" by simp
  then show "pairwiseDisjoint (erase fs i)"
    by (auto simp: pairwiseDisjoint_append erase_def)
  from p show "\<forall>g \<in> set (erase fs i). Disjoint g (fs ! i)"
    by (auto simp: pairwiseDisjoint_append erase_def list_all_iff Disjoint_sym [of "fs ! i"])
qed

lemma freeOK_iff:
  "freeOK D us fs \<longleftrightarrow>
     (\<forall>f \<in> set fs. positive f \<and> z f + depth f = D \<and> (\<forall>u \<in> set us. Disjoint f u))
     \<and> pairwiseDisjoint fs"
  by (simp add: freeOK_def list_all_iff)

lemma insideOf_Disjoint: "insideOf p f \<Longrightarrow> Disjoint f a \<Longrightarrow> Disjoint p a"
  unfolding insideOf_def Disjoint_def by linarith

lemma split_pieces:
  assumes "x n = x f" "y n = y f" "z n = z f"
    and "0 \<le> width n" "width n \<le> width f" "0 \<le> height n" "height n \<le> height f" "0 \<le> depth n"
    and p: "p \<in> set (SplitFreeRectAlongAxis f n sh)"
  shows "positive p" and "z p + depth p = z f + depth f" and "insideOf p f" and "Disjoint p n"
proof -
  from p have "positive p \<and> z p + depth p = z f + depth f \<and> insideOf p f \<and> Disjoint p n"
    using assms(1-8)
    by (cases sh) (auto simp: SplitFreeRectAlongAxis_def Let_def positive_def insideOf_def Disjoint_def
        split: if_splits)
  then show "positive p" and "z p + depth p = z f + depth f" and "insideOf p f" and "Disjoint p n"
    by blast+
qed

lemma split_pairwise:
  assumes "0 \<le> width n" "0 \<le> height n" "0 \<le> depth n"
  shows "pairwiseDisjoint (SplitFreeRectAlongAxis f n sh)"
  using assms
  by (cases sh) (auto simp: SplitFreeRectAlongAxis_def Let_def Disjoint_def)

lemma node_Disjoint:
  assumes "Disjoint f a" and "z a < z f + depth f"
    and "x n = x f" "y n = y f" "z n = z f" "width n \<le> width f" "height n \<le> height f"
  shows "Disjoint n a"
  using assms unfolding Disjoint_def by linarith


lemma mergeStep_ok:
  assumes "mergeStep a b = Some a'" and "positive a" and "positive b"
    and "z a + depth a = D" and "z b + depth b = D"
  shows "positive a'" and "z a' + depth a' = D"
    and "\<And>c. positive c \<Longrightarrow> Disjoint a c \<Longrightarrow> Disjoint b c \<Longrightarrow> Disjoint a' c"
proof -
  from assms show "positive a'"
    by (auto simp: mergeStep_def positive_def split: if_splits)
  from assms show "z a' + depth a' = D"
    by (auto simp: mergeStep_def positive_def split: if_splits)
  fix c
  assume c: "positive c" "Disjoint a c" "Disjoint b c"
  from assms(1) consider
      (y1) "width a = width b" "x a = x b" "z a = z b" "depth a = depth b" "y a = y b + height b"
        "a' = a\<lparr>y := y a - height b, height := height a + height b\<rparr>"
    | (y2) "width a = width b" "x a = x b" "z a = z b" "depth a = depth b" "y a + height a = y b"
        "a' = a\<lparr>height := height a + height b\<rparr>"
    | (x1) "height a = height b" "y a = y b" "z a = z b" "depth a = depth b" "x a = x b + width b"
        "a' = a\<lparr>x := x a - width b, width := width a + width b\<rparr>"
    | (x2) "height a = height b" "y a = y b" "z a = z b" "depth a = depth b" "x a + width a = x b"
        "a' = a\<lparr>width := width a + width b\<rparr>"
    | (z1) "width a = width b" "height a = height b" "x a = x b" "y a = y b" "z a = z b + depth b"
        "a' = a\<lparr>z := z a - depth b, depth := depth a + depth b\<rparr>"
    | (z2) "depth a = 0"
    by (auto simp: mergeStep_def split: if_splits)
  then show "Disjoint a' c"
  proof cases
    case y1
    with c assms(2,3) show ?thesis unfolding Disjoint_def positive_def by simp linarith
  next
    case y2
    with c assms(2,3) show ?thesis unfolding Disjoint_def positive_def by simp linarith
  next
    case x1
    with c assms(2,3) show ?thesis unfolding Disjoint_def positive_def by simp linarith
  next
    case x2
    with c assms(2,3) show ?thesis unfolding Disjoint_def positive_def by simp linarith
  next
    case z1
    with c assms(2,3) show ?thesis unfolding Disjoint_def positive_def by simp linarith
  next
    case z2
    with assms(2) show ?thesis by (simp add: positive_def)
  qed
qed

lemma mergeInto_ok:
  "freeOK D us (a # bs) \<Longrightarrow> list_all positive us \<Longrightarrow> mergeInto a bs = (a', bs')
   \<Longrightarrow> freeOK D us (a' # bs')"
proof (induction bs arbitrary: a us a' bs')
  case Nil
  then show ?case by simp
next
  case (Cons b bs)
  from Cons.prems(1) have a: "positive a" "z a + depth a = D" "\<forall>u \<in> set us. Disjoint a u"
    and b: "positive b" "z b + depth b = D" "\<forall>u \<in> set us. Disjoint b u"
    and bs: "\<forall>c \<in> set bs. positive c \<and> z c + depth c = D \<and> (\<forall>u \<in> set us. Disjoint c u)"
    and ab: "Disjoint a b" and abs: "\<forall>c \<in> set bs. Disjoint a c"
    and bbs: "\<forall>c \<in> set bs. Disjoint b c" and pbs: "pairwiseDisjoint bs"
    by (auto simp: freeOK_iff list_all_iff)
  from Cons.prems(2) have us: "\<forall>u \<in> set us. positive u" by (simp add: list_all_iff)
  show ?case
  proof (cases "mergeStep a b")
    case None
    obtain a2 bs2 where m: "mergeInto a bs = (a2, bs2)" by (cases "mergeInto a bs")
    with None Cons.prems(3) have r: "a' = a2" "bs' = b # bs2" by simp_all
    have "freeOK D (b # us) (a # bs)"
      using a b bs ab abs bbs pbs by (auto simp: freeOK_iff list_all_iff Disjoint_sym [of _ b])
    moreover have "list_all positive (b # us)" using b us by (simp add: list_all_iff)
    ultimately have "freeOK D (b # us) (a2 # bs2)" using m by (rule Cons.IH)
    then show ?thesis unfolding r using b
      by (auto simp: freeOK_iff list_all_iff Disjoint_sym [of b])
  next
    case (Some a1)
    with Cons.prems(3) have m: "mergeInto a1 bs = (a', bs')" by simp
    note ok = mergeStep_ok [OF Some a(1) b(1) a(2) b(2)]
    have "freeOK D us (a1 # bs)"
      using ok(1,2) ok(3) a b bs abs bbs pbs us by (auto simp: freeOK_iff list_all_iff)
    then show ?thesis using Cons.prems(2) m by (rule Cons.IH)
  qed
qed

lemma MergeFreeList_ok:
  "freeOK D us fs \<Longrightarrow> list_all positive us \<Longrightarrow> freeOK D us (MergeFreeList fs)"
proof (induction fs arbitrary: us rule: MergeFreeList.induct)
  case 1
  then show ?case by simp
next
  case (2 a as)
  obtain a' as' where m: "mergeInto a as = (a', as')" by (cases "mergeInto a as")
  from mergeInto_ok [OF "2.prems"(1,2) m] have ok: "freeOK D us (a' # as')" .
  then have "freeOK D (a' # us) as'"
    by (auto simp: freeOK_iff list_all_iff Disjoint_sym [of _ a'])
  moreover have "list_all positive (a' # us)"
    using ok "2.prems"(2) by (simp add: freeOK_iff list_all_iff)
  ultimately have "freeOK D (a' # us) (MergeFreeList as')"
    using "2.IH" [OF refl m [symmetric]] by blast
  with ok have "freeOK D us (a' # MergeFreeList as')"
    by (auto simp: freeOK_iff list_all_iff Disjoint_sym [of a'])
  then show ?case using m by simp
qed

lemma place_inv:
  assumes inv: "G_inv st" and i: "i < length (freeRectangles st)"
    and n: "x n = x (freeRectangles st ! i)" "y n = y (freeRectangles st ! i)"
      "z n = z (freeRectangles st ! i)"
      "0 < width n" "width n \<le> width (freeRectangles st ! i)"
      "0 < height n" "height n \<le> height (freeRectangles st ! i)" "0 < depth n"
  shows "G_inv (st\<lparr>freeRectangles :=
                     erase (freeRectangles st
                            @ SplitFreeRectByHeuristic (freeRectangles st ! i) n m) i,
                   usedRectangles := usedRectangles st @ [n]\<rparr>)"
proof -
  let ?fs = "freeRectangles st" and ?us = "usedRectangles st" and ?D = "binDepth st"
  let ?f = "?fs ! i"
  let ?ps = "SplitFreeRectByHeuristic ?f n m"
  from inv have fr: "\<forall>g \<in> set ?fs. positive g \<and> z g + depth g = ?D \<and> (\<forall>u \<in> set ?us. Disjoint g u)"
    and pf: "pairwiseDisjoint ?fs"
    and us: "\<forall>u \<in> set ?us. positive u \<and> z u < ?D" and pu: "pairwiseDisjoint ?us"
    by (auto simp: G_inv_def freeOK_iff list_all_iff)
  from i have fin: "?f \<in> set ?fs" by simp
  with fr have f: "positive ?f" "z ?f + depth ?f = ?D" "\<forall>u \<in> set ?us. Disjoint ?f u" by auto
  note er = pairwiseDisjoint_erase [OF pf i]
  have ersub: "set (erase ?fs i) \<subseteq> set ?fs" by (rule set_erase_subset)
  have n0: "0 \<le> width n" "0 \<le> height n" "0 \<le> depth n" using n by simp_all
  have ps: "\<And>p. p \<in> set ?ps \<Longrightarrow>
      positive p \<and> z p + depth p = ?D \<and> insideOf p ?f \<and> Disjoint p n"
    using split_pieces [OF n(1-3) n0(1) n(5) n0(2) n(7) n0(3)] f(2)
    unfolding SplitFreeRectByHeuristic_def by metis
  have pps: "pairwiseDisjoint ?ps"
    unfolding SplitFreeRectByHeuristic_def using n0 by (rule split_pairwise)
  have nu: "\<And>u. u \<in> set ?us \<Longrightarrow> Disjoint n u"
  proof -
    fix u assume u: "u \<in> set ?us"
    with f(3) us have "Disjoint ?f u" "z u < z ?f + depth ?f" using f(2) by auto
    then show "Disjoint n u" using n(1-3) n(5) n(7) by (rule node_Disjoint)
  qed
  have ng: "\<And>g. g \<in> set (erase ?fs i) \<Longrightarrow> Disjoint n g"
  proof -
    fix g assume g: "g \<in> set (erase ?fs i)"
    with er(2) have "Disjoint ?f g" by (simp add: Disjoint_sym [of ?f])
    moreover from g ersub fr have "positive g" "z g + depth g = ?D" by auto
    then have "z g < z ?f + depth ?f" using f(2) by (simp add: positive_def)
    ultimately show "Disjoint n g" using n(1-3) n(5) n(7) by (rule node_Disjoint)
  qed
  have e: "erase (?fs @ ?ps) i = erase ?fs i @ ?ps" using i by (rule erase_append)
  have 1: "\<forall>g \<in> set (erase ?fs i @ ?ps).
      positive g \<and> z g + depth g = ?D \<and> (\<forall>u \<in> set (?us @ [n]). Disjoint g u)"
  proof
    fix g assume "g \<in> set (erase ?fs i @ ?ps)"
    then consider (old) "g \<in> set (erase ?fs i)" | (new) "g \<in> set ?ps" by auto
    then show "positive g \<and> z g + depth g = ?D \<and> (\<forall>u \<in> set (?us @ [n]). Disjoint g u)"
    proof cases
      case old
      with ersub fr ng [OF old] show ?thesis by (auto simp: Disjoint_sym [of g n])
    next
      case new
      from ps [OF new] f(3) show ?thesis by (auto intro: insideOf_Disjoint)
    qed
  qed
  have 2: "pairwiseDisjoint (erase ?fs i @ ?ps)"
  proof -
    have "\<forall>a \<in> set (erase ?fs i). \<forall>b \<in> set ?ps. Disjoint a b"
    proof (intro ballI)
      fix a b assume a: "a \<in> set (erase ?fs i)" and b: "b \<in> set ?ps"
      from a er(2) have "Disjoint ?f a" by (simp add: Disjoint_sym [of ?f])
      with ps [OF b] have "Disjoint b a" by (auto intro: insideOf_Disjoint)
      then show "Disjoint a b" by (simp add: Disjoint_sym)
    qed
    with er(1) pps show ?thesis by (simp add: pairwiseDisjoint_append)
  qed
  have 3: "\<forall>u \<in> set (?us @ [n]). positive u \<and> z u < ?D"
    using us n f(1,2) by (auto simp: positive_def)
  have 4: "pairwiseDisjoint (?us @ [n])"
    using pu nu by (auto simp: pairwiseDisjoint_append Disjoint_sym [of _ n])
  show ?thesis unfolding e using 1 2 3 4 by (simp add: G_inv_def freeOK_iff list_all_iff)
qed

subsection \<open>The single insert keeps the invariant of the guillotine packer\<close>

lemma G_inv_sorted: "G_inv st \<Longrightarrow> G_inv (st\<lparr>freeRectangles := sortedFree st\<rparr>)"
  by (simp add: G_inv_def freeOK_iff sortedFree_def set_sort_by pairwiseDisjoint_sort_by)

lemma G_inv_merge:
  "G_inv st \<Longrightarrow> G_inv (st\<lparr>freeRectangles := MergeFreeList (freeRectangles st)\<rparr>)"
  using MergeFreeList_ok [of "binDepth st" "usedRectangles st" "freeRectangles st"]
  by (simp add: G_inv_def list_all_iff)

lemma orientedNode_fits:
  assumes "Fits (sizeOf w h d) f" and "0 < w" and "0 < h" and "0 < d"
  shows "x (orientedNode w h d f) = x f" and "y (orientedNode w h d f) = y f"
    and "z (orientedNode w h d f) = z f"
    and "0 < width (orientedNode w h d f)" and "width (orientedNode w h d f) \<le> width f"
    and "0 < height (orientedNode w h d f)" and "height (orientedNode w h d f) \<le> height f"
    and "0 < depth (orientedNode w h d f)"
  using assms by (auto simp: orientedNode_def Fits_sizeOf)

lemma G_Insert_inv:
  assumes inv: "G_inv st" and pos: "0 < w" "0 < h" "0 < d"
  shows "G_inv (snd (G_Insert st w h d merge rc sm))"
proof (cases "\<exists>f \<in> set (freeRectangles st). Fits (sizeOf w h d) f")
  case False
  then have "\<forall>f \<in> set (sortedFree st). \<not> Fits (sizeOf w h d) f" by (simp add: set_sortedFree)
  then have "findPositionFrom w h d rc 0 (sortedFree st) = (zeroRect, 0)"
    by (rule findPositionFrom_none)
  then have "snd (G_Insert st w h d merge rc sm) = st\<lparr>freeRectangles := sortedFree st\<rparr>"
    by (simp add: G_Insert_eq FindPositionForNewNode_sortedFree zeroRect_def)
  with G_inv_sorted [OF inv] show ?thesis by simp
next
  case True
  let ?st1 = "st\<lparr>freeRectangles := sortedFree st\<rparr>"
  from True have "\<exists>f \<in> set (sortedFree st). Fits (sizeOf w h d) f" by (simp add: set_sortedFree)
  from findPositionFrom_first [OF this, of rc 0]
  obtain j where j: "j < length (sortedFree st)"
    and fp: "findPositionFrom w h d rc 0 (sortedFree st) = (orientedNode w h d (sortedFree st ! j), j)"
    and fit: "Fits (sizeOf w h d) (sortedFree st ! j)" by auto
  let ?n = "orientedNode w h d (sortedFree st ! j)"
  note on = orientedNode_fits [OF fit pos]
  have inv1: "G_inv ?st1" using inv by (rule G_inv_sorted)
  have j1: "j < length (freeRectangles ?st1)" using j by simp
  let ?st2 = "?st1\<lparr>freeRectangles :=
                     erase (freeRectangles ?st1
                            @ SplitFreeRectByHeuristic (freeRectangles ?st1 ! j) ?n sm) j,
                   usedRectangles := usedRectangles ?st1 @ [?n]\<rparr>"
  have inv2: "G_inv ?st2"
    by (rule place_inv [OF inv1 j1]) (simp_all add: on)
  have inv3: "G_inv (?st2\<lparr>freeRectangles := MergeFreeList (freeRectangles ?st2)\<rparr>)"
    using inv2 by (rule G_inv_merge)
  have "height ?n \<noteq> 0" using on(6) by simp
  then have "snd (G_Insert st w h d merge rc sm) =
      (if merge then ?st2\<lparr>freeRectangles := MergeFreeList (freeRectangles ?st2)\<rparr> else ?st2)"
    by (simp add: G_Insert_eq FindPositionForNewNode_sortedFree fp Let_def)
  with inv2 inv3 show ?thesis by simp
qed

lemma uprightFits_True:
  "uprightFits free fi j r = Inr True \<Longrightarrow>
   RectSize3d.width r \<le> width fi \<and> RectSize3d.height r \<le> height fi"
  by (auto simp: uprightFits_def split: if_splits)

lemma scanRects_valid:
  assumes "scanRects free rc i fi j rs best = Inr (b, fl)"
    and "i < length free" and "free ! i = fi" and "rects = pre @ rs" and "j = length pre"
    and "bestScore best = INT_MAX \<or> validBest free rects best"
  shows "bestScore b = INT_MAX \<or> validBest free rects b"
  using assms
proof (induction rs arbitrary: j pre best)
  case Nil
  then show ?case by simp
next
  case (Cons r rs)
  have rj: "rects ! j = r" and jl: "j < length rects"
    using Cons.prems(4,5) by simp_all
  have nxt: "rects = (pre @ [r]) @ rs" "Suc j = length (pre @ [r])"
    using Cons.prems(4,5) by simp_all
  let ?up = "\<lparr>bestFreeRect = i, bestRect = j, bestFlipped = False,
      bestScore = ScoreByHeuristic (RectSize3d.width r) (RectSize3d.height r)
                            (RectSize3d.depth r) fi rc\<rparr>"
  let ?fl = "\<lparr>bestFreeRect = i, bestRect = j, bestFlipped = True,
      bestScore = ScoreByHeuristic (RectSize3d.height r) (RectSize3d.width r)
                            (RectSize3d.depth r) fi rc\<rparr>"
  consider
      (p1) "RectSize3d.width r = width fi \<and> RectSize3d.height r = height fi
          \<and> RectSize3d.depth r = depth fi"
    | (p2) "\<not> (RectSize3d.width r = width fi \<and> RectSize3d.height r = height fi
          \<and> RectSize3d.depth r = depth fi)"
        "RectSize3d.height r = width fi \<and> RectSize3d.width r = height fi
          \<and> RectSize3d.depth r = depth fi"
    | (u) "\<not> (RectSize3d.width r = width fi \<and> RectSize3d.height r = height fi
          \<and> RectSize3d.depth r = depth fi)"
        "\<not> (RectSize3d.height r = width fi \<and> RectSize3d.width r = height fi
          \<and> RectSize3d.depth r = depth fi)"
    by blast
  then show ?case
  proof cases
    case p1
    from Cons.prems(1) [unfolded scanRects.simps if_P [OF p1]]
    have "b = \<lparr>bestFreeRect = i, bestRect = j, bestFlipped = False,
        bestScore = INT_MIN\<rparr>" by simp
    then show ?thesis using p1 Cons.prems(2,3) rj jl by (simp add: validBest_def)
  next
    case p2
    from Cons.prems(1) [unfolded scanRects.simps if_not_P [OF p2(1)] if_P [OF p2(2)]]
    have "b = \<lparr>bestFreeRect = i, bestRect = j, bestFlipped = True,
        bestScore = INT_MIN\<rparr>" by simp
    then show ?thesis using p2 Cons.prems(2,3) rj jl by (simp add: validBest_def)
  next
    case u
    note eq = Cons.prems(1) [unfolded scanRects.simps if_not_P [OF u(1)] if_not_P [OF u(2)]]
    show ?thesis
    proof (cases "uprightFits free fi j r")
      case (Inl e)
      with eq show ?thesis by simp
    next
      case (Inr t)
      show ?thesis
      proof (cases t)
        case True
        with Inr have ut: "uprightFits free fi j r = Inr True" by simp
        let ?b1 = "if bestScore ?up < bestScore best then ?up else best"
        from eq ut
        have sc: "scanRects free rc i fi (Suc j) rs ?b1 = Inr (b, fl)"
          by (simp add: Let_def)
        have "validBest free rects ?up"
          using uprightFits_True [OF ut] Cons.prems(2,3) rj jl by (simp add: validBest_def)
        then have "bestScore ?b1 = INT_MAX \<or> validBest free rects ?b1"
          using Cons.prems(6) by auto
        from Cons.IH [OF sc Cons.prems(2,3) nxt this] show ?thesis .
      next
        case False
        with Inr have uf: "uprightFits free fi j r = Inr False" by simp
        show ?thesis
        proof (cases "RectSize3d.height r \<le> width fi \<and> RectSize3d.width r \<le> height fi
                 \<and> RectSize3d.depth r \<le> depth fi")
          case ff: True
          let ?b1 = "if bestScore ?fl < bestScore best then ?fl else best"
          from eq [unfolded uf] ff
          have sc: "scanRects free rc i fi (Suc j) rs ?b1 = Inr (b, fl)"
            by (simp add: Let_def)
          have "validBest free rects ?fl"
            using ff Cons.prems(2,3) rj jl by (simp add: validBest_def)
          then have "bestScore ?b1 = INT_MAX \<or> validBest free rects ?b1"
            using Cons.prems(6) by auto
          from Cons.IH [OF sc Cons.prems(2,3) nxt this] show ?thesis .
        next
          case nf: False
          from eq [unfolded uf] nf
          have sc: "scanRects free rc i fi (Suc j) rs best = Inr (b, fl)"
            by simp
          from Cons.IH [OF sc Cons.prems(2,3) nxt Cons.prems(6)] show ?thesis .
        qed
      qed
    qed
  qed
qed

lemma scanFree_valid:
  assumes "scanFree free rects rc i fs best = Inr b"
    and "free = pre @ fs" and "i = length pre"
    and "bestScore best = INT_MAX \<or> validBest free rects best"
  shows "bestScore b = INT_MAX \<or> validBest free rects b"
  using assms
proof (induction fs arbitrary: i pre best)
  case Nil
  then show ?case by simp
next
  case (Cons f fs)
  have fi: "free ! i = f" and il: "i < length free" using Cons.prems(2,3) by simp_all
  have nxt: "free = (pre @ [f]) @ fs" "Suc i = length (pre @ [f])"
    using Cons.prems(2,3) by simp_all
  show ?case
  proof (cases "scanRects free rc i f 0 rects best")
    case (Inl e)
    with Cons.prems(1) show ?thesis by simp
  next
    case (Inr p)
    obtain b1 fl where p: "p = (b1, fl)" by (cases p)
    with Inr have sr: "scanRects free rc i f 0 rects best = Inr (b1, fl)" by simp
    have v1: "bestScore b1 = INT_MAX \<or> validBest free rects b1"
      by (rule scanRects_valid [OF sr il fi _ _ Cons.prems(4), of "[]"]) simp_all
    show ?thesis
    proof (cases fl)
      case True
      with sr Cons.prems(1) have "b = b1" by simp
      with v1 show ?thesis by simp
    next
      case False
      with sr Cons.prems(1) have "scanFree free rects rc (Suc i) fs b1 = Inr b" by simp
      from Cons.IH [OF this nxt v1] show ?thesis .
    qed
  qed
qed

subsection \<open>The batch insert, sequences of calls, and the max-rects packer\<close>

lemma placeBest_inv:
  assumes inv: "G_inv st" and v: "validBest (freeRectangles st) rects b"
    and pos: "list_all positiveSize rects"
    and pb: "placeBest st rects merge sm b = (st', rects')"
  shows "G_inv st'" and "list_all positiveSize rects'" and "length rects' < length rects"
proof -
  let ?i = "bestFreeRect b" and ?k = "bestRect b"
  let ?f = "freeRectangles st ! ?i" and ?r = "rects ! ?k"
  let ?n = "\<lparr>x = x ?f, y = y ?f, z = z ?f,
             width = (if bestFlipped b then RectSize3d.height ?r else RectSize3d.width ?r),
             height = (if bestFlipped b then RectSize3d.width ?r else RectSize3d.height ?r),
             depth = RectSize3d.depth ?r\<rparr>"
  from v have i: "?i < length (freeRectangles st)" and k: "?k < length rects"
    by (simp_all add: validBest_def)
  from pos k have pr: "positiveSize ?r" by (simp add: list_all_length)
  let ?st2 = "st\<lparr>freeRectangles :=
                     erase (freeRectangles st @ SplitFreeRectByHeuristic ?f ?n sm) ?i,
                   usedRectangles := usedRectangles st @ [?n]\<rparr>"
  have inv2: "G_inv ?st2"
    by (rule place_inv [OF inv i]) (use v pr in \<open>auto simp: validBest_def positiveSize_def\<close>)
  have inv3: "G_inv (?st2\<lparr>freeRectangles := MergeFreeList (freeRectangles ?st2)\<rparr>)"
    using inv2 by (rule G_inv_merge)
  from pb have st': "st' = (if merge then ?st2\<lparr>freeRectangles := MergeFreeList (freeRectangles ?st2)\<rparr>
      else ?st2)" and r': "rects' = erase rects ?k"
    by (auto simp: placeBest_def Let_def)
  from st' inv2 inv3 show "G_inv st'" by simp
  from pos set_erase_subset [of rects ?k] show "list_all positiveSize rects'"
    unfolding r' by (auto simp: list_all_iff)
  from k show "length rects' < length rects" unfolding r' by (simp add: erase_def)
qed

lemma insertRounds_inv:
  assumes "insertRounds n st rects merge rc sm best = Inr (st', rest)"
    and "G_inv st" and "list_all positiveSize rects"
  shows "G_inv st'"
  using assms
proof (induction n arbitrary: st rects best)
  case 0
  then show ?case by simp
next
  case (Suc n)
  show ?case
  proof (cases "rects = []")
    case True
    with Suc.prems show ?thesis by simp
  next
    case False
    let ?sc = "scanFree (freeRectangles st) rects rc 0 (freeRectangles st)
                (best\<lparr>bestScore := INT_MAX\<rparr>)"
    show ?thesis
    proof (cases ?sc)
      case (Inl e)
      with False Suc.prems(1) show ?thesis by simp
    next
      case (Inr b)
      have v: "bestScore b = INT_MAX \<or> validBest (freeRectangles st) rects b"
        by (rule scanFree_valid [OF Inr, of "[]"]) simp_all
      show ?thesis
      proof (cases "bestScore b = INT_MAX")
        case True
        with False Inr Suc.prems(1) have "st' = st" by simp
        with Suc.prems(2) show ?thesis by simp
      next
        case nm: False
        with v have vb: "validBest (freeRectangles st) rects b" by simp
        obtain st2 rects2 where pb: "placeBest st rects merge sm b = (st2, rects2)"
          by (cases "placeBest st rects merge sm b")
        from False Inr nm pb Suc.prems(1)
        have "insertRounds n st2 rects2 merge rc sm b = Inr (st', rest)" by simp
        from Suc.IH [OF this placeBest_inv(1,2) [OF Suc.prems(2) vb Suc.prems(3) pb]]
        show ?thesis .
      qed
    qed
  qed
qed

text \<open>
  The number of rounds that \<^verbatim>\<open>G_InsertBatch\<close> allows is enough: every round that
  goes on removes one box, so any larger number of rounds gives the same result.
\<close>

lemma insertRounds_fuel:
  "length rects \<le> n \<Longrightarrow>
   insertRounds n st rects merge rc sm best =
   insertRounds (length rects) st rects merge rc sm best"
proof (induction n arbitrary: st rects best)
  case 0
  then show ?case by simp
next
  case (Suc n)
  show ?case
  proof (cases rects)
    case Nil
    then show ?thesis by simp
  next
    case (Cons r rs)
    then have len: "length rects = Suc (length rs)" and ne: "rects \<noteq> []" by simp_all
    let ?sc = "scanFree (freeRectangles st) rects rc 0 (freeRectangles st)
                (best\<lparr>bestScore := INT_MAX\<rparr>)"
    show ?thesis
    proof (cases ?sc)
      case (Inl e)
      with ne show ?thesis unfolding len by simp
    next
      case (Inr b)
      have v: "bestScore b = INT_MAX \<or> validBest (freeRectangles st) rects b"
        by (rule scanFree_valid [OF Inr, of "[]"]) simp_all
      show ?thesis
      proof (cases "bestScore b = INT_MAX")
        case True
        with ne Inr show ?thesis unfolding len by simp
      next
        case nm: False
        with v have "bestRect b < length rects" by (simp add: validBest_def)
        then have l: "length (erase rects (bestRect b)) = length rs"
          using len by (simp add: erase_def)
        obtain st2 rects2 where pb: "placeBest st rects merge sm b = (st2, rects2)"
          by (cases "placeBest st rects merge sm b")
        then have "rects2 = erase rects (bestRect b)" by (auto simp: placeBest_def Let_def)
        with l have l2: "length rects2 = length rs" by simp
        with Suc.prems len have "length rects2 \<le> n" by simp
        from Suc.IH [OF this, of st2 b]
        have "insertRounds n st2 rects2 merge rc sm b =
            insertRounds (length rs) st2 rects2 merge rc sm b" by (simp add: l2)
        with ne Inr nm pb show ?thesis unfolding len by simp
      qed
    qed
  qed
qed

lemma G_Init_inv: "0 < W \<Longrightarrow> 0 < H \<Longrightarrow> 0 < D \<Longrightarrow> G_inv (G_Init W H D)"
  by (simp add: G_inv_def G_Init_def freeOK_def positive_def)

lemma G_call_inv:
  assumes "G_call st c = Inr st'" and "G_inv st" and "positiveCall c"
  shows "G_inv st'"
proof (cases c)
  case (InsertOne w h d merge rc sm)
  with assms show ?thesis using G_Insert_inv [of st w h d merge rc sm] by auto
next
  case (InsertBatch rects merge rc sm)
  with assms(1) obtain rest where
    "insertRounds (length rects) st rects merge rc sm
       \<lparr>bestFreeRect = 0, bestRect = 0, bestFlipped = False, bestScore = INT_MAX\<rparr> = Inr (st', rest)"
    by (auto simp: G_InsertBatch_def split: sum.splits)
  then show ?thesis using assms(2,3) InsertBatch
    by (auto intro: insertRounds_inv)
qed

lemma G_run_inv:
  "G_run st cs = Inr st' \<Longrightarrow> G_inv st \<Longrightarrow> list_all positiveCall cs \<Longrightarrow> G_inv st'"
proof (induction cs arbitrary: st)
  case Nil
  then show ?case by simp
next
  case (Cons c cs)
  from Cons.prems(1) obtain st1 where c: "G_call st c = Inr st1" and r: "G_run st1 cs = Inr st'"
    by (auto split: sum.splits)
  from Cons.prems(2,3) have "G_inv st1" using G_call_inv [OF c] by simp
  with Cons.IH [OF r] Cons.prems(3) show ?case by simp
qed



lemma not_blocked_Disjoint: "\<not> isBlocked u n \<Longrightarrow> Disjoint u n"
  unfolding isBlocked_def Disjoint_def by (auto split: if_splits)

lemma FindBL_unblocked:
  "FindPositionForNewNodeBottomLeft flip used w h d blocked fs = zeroRect \<or>
   (\<forall>u \<in> set used. \<not> isBlocked u (FindPositionForNewNodeBottomLeft flip used w h d blocked fs))"
proof (induction fs arbitrary: blocked)
  case Nil
  show ?case by simp
next
  case (Cons f fs)
  define n1 where "n1 = \<lparr>x = supportx0 f, y = supporty0 f, z = z f,
                         width = w, height = h, depth = d\<rparr>"
  define n2 where "n2 = \<lparr>x = supportx0 f, y = supporty0 f, z = z f,
                         width = h, height = w, depth = d\<rparr>"
  define U where "U \<longleftrightarrow> width f \<ge> w \<and> height f \<ge> h \<and> depth f \<ge> d
      \<and> supporty1 f - supporty0 f \<ge> h * supportTh \<and> supportx1 f - supportx0 f \<ge> w * supportTh"
  define F where "F \<longleftrightarrow> flip \<and> width f \<ge> h \<and> height f \<ge> w \<and> depth f \<ge> d
      \<and> supporty1 f - supporty0 f \<ge> w * supportTh \<and> supportx1 f - supportx0 f \<ge> h * supportTh"
  define b1 where "b1 = (if U then scanBlocked blocked used n1 else blocked)"
  define b2 where "b2 = (if F then scanBlocked False used n2 else b1)"
  have eq: "FindPositionForNewNodeBottomLeft flip used w h d blocked (f # fs) =
      (if U \<and> \<not> b1 then n1 else if F \<and> \<not> b2 then n2
       else FindPositionForNewNodeBottomLeft flip used w h d b2 fs)"
    unfolding FindPositionForNewNodeBottomLeft.simps Let_def n1_def n2_def U_def F_def b1_def b2_def
    by (rule refl)
  show ?case
  proof (cases "U \<and> \<not> b1")
    case True
    then have "\<forall>u \<in> set used. \<not> isBlocked u n1"
      by (auto simp: b1_def scanBlocked_def list_ex_iff)
    moreover have "FindPositionForNewNodeBottomLeft flip used w h d blocked (f # fs) = n1"
      unfolding eq using True by simp
    ultimately show ?thesis by (simp only:) simp
  next
    case nu: False
    show ?thesis
    proof (cases "F \<and> \<not> b2")
      case True
      then have "\<forall>u \<in> set used. \<not> isBlocked u n2"
        by (auto simp: b2_def scanBlocked_def list_ex_iff)
      moreover have "FindPositionForNewNodeBottomLeft flip used w h d blocked (f # fs) = n2"
        unfolding eq using True nu by auto
      ultimately show ?thesis by (simp only:) simp
    next
      case False
      have "FindPositionForNewNodeBottomLeft flip used w h d blocked (f # fs) =
         FindPositionForNewNodeBottomLeft flip used w h d b2 fs"
        unfolding eq using False nu by auto
      with Cons [of b2] show ?thesis by (simp only:)
    qed
  qed
qed

lemma M_Insert_pairwise:
  assumes "pairwiseDisjoint (usedRectangles m)"
  shows "pairwiseDisjoint (usedRectangles (snd (M_Insert m w h d)))"
proof (cases "height (fst (M_Insert m w h d)) = 0")
  case True
  with assms show ?thesis by (simp add: M_Insert_used)
next
  case False
  let ?n = "FindPositionForNewNodeBottomLeft (binAllowFlip m) (usedRectangles m) w h d False
      (sortFreeSpace (freeRectangles m))"
  have n: "fst (M_Insert m w h d) = ?n"
    by (simp add: M_Insert_eq Let_def split: prod.splits)
  with False have "?n \<noteq> zeroRect" by (auto simp: zeroRect_def)
  with FindBL_unblocked [of "binAllowFlip m" "usedRectangles m" w h d False
      "sortFreeSpace (freeRectangles m)"]
  have "\<forall>u \<in> set (usedRectangles m). Disjoint u ?n"
    by (auto intro: not_blocked_Disjoint)
  with assms False show ?thesis
    by (simp add: M_Insert_used n pairwiseDisjoint_append)
qed

lemma M_run_pairwise:
  "pairwiseDisjoint (usedRectangles m) \<Longrightarrow> pairwiseDisjoint (usedRectangles (M_run m cs))"
proof (induction cs arbitrary: m)
  case Nil
  then show ?case by simp
next
  case (Cons c cs)
  obtain w h d where c: "c = (w, h, d)" by (cases c)
  show ?case unfolding c using Cons.IH [OF M_Insert_pairwise [OF Cons.prems]] by simp
qed

text \<open>
  Claim C2: after every sequence of insert calls that return, the boxes of the
  placed-box list are pairwise disjoint. For the guillotine packer the sequence may mix
  single and batch inserts, with or without merging and with any scoring and split
  rule; it starts from a container with positive sizes and asks for positive sizes,
  and no call ends in the out-of-bounds read of the batch insert. For the max-rects
  packer the sequence is any list of requests on any freshly initialised packer.
\<close>

theorem placed_boxes_pairwise_disjoint:
  "(0 < W \<and> 0 < H \<and> 0 < D \<and> list_all positiveCall cs \<and> G_run (G_Init W H D) cs = Inr st
      \<longrightarrow> pairwiseDisjoint (usedRectangles st))
   \<and> pairwiseDisjoint (usedRectangles (M_run (M_Init W' H' D' allowFlip) reqs))"
proof (intro conjI impI)
  assume a: "0 < W \<and> 0 < H \<and> 0 < D \<and> list_all positiveCall cs \<and> G_run (G_Init W H D) cs = Inr st"
  then have "G_inv (G_Init W H D)" by (simp add: G_Init_inv)
  with a have "G_inv st" using G_run_inv [of "G_Init W H D" cs st] by simp
  then show "pairwiseDisjoint (usedRectangles st)" by (simp add: G_inv_def)
next
  have "pairwiseDisjoint (usedRectangles (M_Init W' H' D' allowFlip))" by (simp add: M_Init_def)
  then show "pairwiseDisjoint (usedRectangles (M_run (M_Init W' H' D' allowFlip) reqs))"
    by (rule M_run_pairwise)
qed

theorem placed_boxes_pairwise_disjoint_witness:
  "G_run (G_Init 10 10 10)
     [InsertOne 4 4 4 False RectBestAreaFit SplitShorterLeftoverAxis,
      InsertOne 6 4 10 True RectBestAreaFit SplitShorterLeftoverAxis,
      InsertBatch [\<lparr>RectSize3d.width = 20, height = 20, depth = 20\<rparr>,
                   \<lparr>RectSize3d.width = 4, height = 4, depth = 8\<rparr>]
        True RectBestAreaFit SplitShorterLeftoverAxis] =
   Inr \<lparr>binWidth = 10, binHeight = 10, binDepth = 10,
        usedRectangles =
          [\<lparr>x = 0, y = 0, z = 0, width = 4, height = 4, depth = 4\<rparr>,
           \<lparr>x = 4, y = 0, z = 0, width = 6, height = 4, depth = 10\<rparr>,
           \<lparr>x = 0, y = 4, z = 0, width = 4, height = 4, depth = 8\<rparr>],
        freeRectangles =
          [\<lparr>x = 0, y = 0, z = 4, width = 4, height = 4, depth = 6\<rparr>,
           \<lparr>x = 0, y = 4, z = 8, width = 4, height = 4, depth = 2\<rparr>,
           \<lparr>x = 0, y = 8, z = 0, width = 4, height = 2, depth = 10\<rparr>,
           \<lparr>x = 4, y = 4, z = 0, width = 6, height = 6, depth = 10\<rparr>]\<rparr> \<and>
   pairwiseDisjoint
     [\<lparr>x = 0, y = 0, z = 0, width = 4, height = 4, depth = 4\<rparr>,
      \<lparr>x = 4, y = 0, z = 0, width = 6, height = 4, depth = 10\<rparr>,
      \<lparr>x = 0, y = 4, z = 0, width = 4, height = 4, depth = 8\<rparr>] \<and>
   usedRectangles (M_run (M_Init 10 10 10 True) [(4, 4, 4), (10, 10, 6), (6, 6, 4)]) =
     [\<lparr>x = 0, y = 0, z = 0, width = 4, height = 4, depth = 4\<rparr>,
      \<lparr>x = 0, y = 0, z = 4, width = 10, height = 10, depth = 6\<rparr>] \<and>
   pairwiseDisjoint
     [\<lparr>x = 0, y = 0, z = 0, width = 4, height = 4, depth = 4\<rparr>,
      \<lparr>x = 0, y = 0, z = 4, width = 10, height = 10, depth = 6\<rparr>]"
proof -
  let ?cs = "[InsertOne 4 4 4 False RectBestAreaFit SplitShorterLeftoverAxis,
      InsertOne 6 4 10 True RectBestAreaFit SplitShorterLeftoverAxis,
      InsertBatch [\<lparr>RectSize3d.width = 20, height = 20, depth = 20\<rparr>,
                   \<lparr>RectSize3d.width = 4, height = 4, depth = 8\<rparr>]
        True RectBestAreaFit SplitShorterLeftoverAxis]"
  let ?st = "\<lparr>binWidth = 10, binHeight = 10, binDepth = 10,
        usedRectangles =
          [\<lparr>x = 0, y = 0, z = 0, width = 4, height = 4, depth = 4\<rparr>,
           \<lparr>x = 4, y = 0, z = 0, width = 6, height = 4, depth = 10\<rparr>,
           \<lparr>x = 0, y = 4, z = 0, width = 4, height = 4, depth = 8\<rparr>],
        freeRectangles =
          [\<lparr>x = 0, y = 0, z = 4, width = 4, height = 4, depth = 6\<rparr>,
           \<lparr>x = 0, y = 4, z = 8, width = 4, height = 4, depth = 2\<rparr>,
           \<lparr>x = 0, y = 8, z = 0, width = 4, height = 2, depth = 10\<rparr>,
           \<lparr>x = 4, y = 4, z = 0, width = 6, height = 6, depth = 10\<rparr>]\<rparr>"
  have run: "G_run (G_Init 10 10 10) ?cs = Inr ?st"
    by code_simp
  have pos: "list_all positiveCall ?cs"
    by (simp add: positiveSize_def)
  have mrun: "usedRectangles (M_run (M_Init 10 10 10 True) [(4, 4, 4), (10, 10, 6), (6, 6, 4)]) =
     [\<lparr>x = 0, y = 0, z = 0, width = 4, height = 4, depth = 4\<rparr>,
      \<lparr>x = 0, y = 0, z = 4, width = 10, height = 10, depth = 6\<rparr>]"
    by code_simp
  from placed_boxes_pairwise_disjoint [of 10 10 10 ?cs ?st 10 10 10 True
      "[(4, 4, 4), (10, 10, 6), (6, 6, 4)]"] run pos
  have "pairwiseDisjoint (usedRectangles ?st)"
    and "pairwiseDisjoint (usedRectangles (M_run (M_Init 10 10 10 True)
      [(4, 4, 4), (10, 10, 6), (6, 6, 4)]))"
    by simp_all
  with run mrun show ?thesis by simp
qed

section \<open>Volume balance and containment of the single insert\<close>

text \<open>
  The single insert of the guillotine packer moves volume from the free list to the
  placed boxes and loses none: the pieces of the split and the box add up to the free
  volume, a piece that is dropped has volume zero, and merging adds volumes up.
\<close>

lemma totalVolume_append: "totalVolume (as @ bs) = totalVolume as + totalVolume bs"
  by (simp add: totalVolume_def)

lemma totalVolume_Cons: "totalVolume (a # as) = volume a + totalVolume as"
  by (simp add: totalVolume_def)

lemma totalVolume_Nil: "totalVolume [] = 0"
  by (simp add: totalVolume_def)

lemma totalVolume_mset: "mset as = mset bs \<Longrightarrow> totalVolume as = totalVolume bs"
proof -
  assume "mset as = mset bs"
  then have "sum_mset (image_mset volume (mset as)) = sum_mset (image_mset volume (mset bs))"
    by simp
  then show ?thesis
    unfolding totalVolume_def by (simp only: mset_map [symmetric] sum_mset_sum_list)
qed

lemma totalVolume_erase:
  "i < length fs \<Longrightarrow> totalVolume (erase fs i) = totalVolume fs - volume (fs ! i)"
proof -
  assume i: "i < length fs"
  then have "fs = take i fs @ fs ! i # drop (Suc i) fs" by (rule id_take_nth_drop)
  then have "totalVolume fs = totalVolume (take i fs) + (volume (fs ! i) + totalVolume (drop (Suc i) fs))"
    by (metis totalVolume_append totalVolume_Cons)
  then show ?thesis by (simp add: erase_def totalVolume_append)
qed

lemma split_volume:
  assumes "0 \<le> width n" "width n \<le> width f" "0 \<le> height n" "height n \<le> height f"
    and "0 \<le> depth n" "depth n \<le> depth f"
  shows "totalVolume (SplitFreeRectAlongAxis f n sh) = volume f - volume n"
proof -
  define wb where "wb = (if sh then width f else width n)"
  define hr where "hr = (if sh then height n else height f)"
  define vu where "vu = width n * height n * (depth f - depth n)"
  define vb where "vb = wb * (height f - height n) * depth f"
  define vr where "vr = (width f - width n) * hr * depth f"
  have wb0: "0 \<le> wb" and hr0: "0 \<le> hr" using assms by (auto simp: wb_def hr_def)
  have u0: "\<not> (0 < width n \<and> 0 < height n \<and> 0 < depth f - depth n) \<Longrightarrow> vu = 0"
    using assms by (auto simp: vu_def)
  have b0: "\<not> (0 < wb \<and> 0 < height f - height n \<and> 0 < depth f) \<Longrightarrow> vb = 0"
    using assms wb0 by (auto simp: vb_def)
  have r0: "\<not> (0 < width f - width n \<and> 0 < hr \<and> 0 < depth f) \<Longrightarrow> vr = 0"
    using assms hr0 by (auto simp: vr_def)
  have "totalVolume (SplitFreeRectAlongAxis f n sh) =
      (if 0 < width n \<and> 0 < height n \<and> 0 < depth f - depth n then vu else 0) +
      (if 0 < wb \<and> 0 < height f - height n \<and> 0 < depth f then vb else 0) +
      (if 0 < width f - width n \<and> 0 < hr \<and> 0 < depth f then vr else 0)"
    by (simp add: SplitFreeRectAlongAxis_def Let_def totalVolume_def volume_def
        vu_def vb_def vr_def wb_def hr_def)
  also have "\<dots> = vu + vb + vr" using u0 b0 r0 by presburger
  also have "\<dots> = volume f - volume n"
    by (cases sh) (simp_all add: vu_def vb_def vr_def wb_def hr_def volume_def algebra_simps)
  finally show ?thesis .
qed

lemma mergeStep_volume: "mergeStep a b = Some a' \<Longrightarrow> volume a' = volume a + volume b"
  by (auto simp: mergeStep_def volume_def algebra_simps split: if_splits)

lemma mergeInto_volume:
  "mergeInto a bs = (a', bs') \<Longrightarrow> volume a' + totalVolume bs' = volume a + totalVolume bs"
proof (induction bs arbitrary: a a' bs')
  case Nil
  then show ?case by simp
next
  case (Cons b bs)
  show ?case
  proof (cases "mergeStep a b")
    case None
    obtain a2 bs2 where m: "mergeInto a bs = (a2, bs2)" by (cases "mergeInto a bs")
    with None Cons.prems have "a' = a2" "bs' = b # bs2" by simp_all
    with Cons.IH [OF m] show ?thesis by (simp add: totalVolume_Cons)
  next
    case (Some a1)
    with Cons.prems have "mergeInto a1 bs = (a', bs')" by simp
    from Cons.IH [OF this] mergeStep_volume [OF Some] show ?thesis
      by (simp add: totalVolume_Cons)
  qed
qed

lemma MergeFreeList_volume: "totalVolume (MergeFreeList fs) = totalVolume fs"
proof (induction fs rule: MergeFreeList.induct)
  case 1
  show ?case by simp
next
  case (2 a as)
  obtain a' as' where m: "mergeInto a as = (a', as')" by (cases "mergeInto a as")
  from "2.IH" [OF refl m [symmetric]] mergeInto_volume [OF m] m
  show ?case by (simp add: totalVolume_Cons)
qed

lemma orientedNode_volume_fits:
  assumes "Fits (sizeOf w h d) f" and "0 \<le> w" and "0 \<le> h" and "0 \<le> d"
  shows "0 \<le> width (orientedNode w h d f)" and "width (orientedNode w h d f) \<le> width f"
    and "0 \<le> height (orientedNode w h d f)" and "height (orientedNode w h d f) \<le> height f"
    and "0 \<le> depth (orientedNode w h d f)" and "depth (orientedNode w h d f) \<le> depth f"
  using assms by (auto simp: orientedNode_def Fits_sizeOf)

lemma single_insert_keeps_volume_balance:
  assumes "0 \<le> w" and "0 \<le> h" and "0 \<le> d"
  shows "totalVolume (freeRectangles (snd (G_Insert st w h d merge rc sm)))
         + totalVolume (usedRectangles (snd (G_Insert st w h d merge rc sm)))
       = totalVolume (freeRectangles st) + totalVolume (usedRectangles st)"
proof (cases "\<exists>f \<in> set (freeRectangles st). Fits (sizeOf w h d) f")
  case False
  then have "\<forall>f \<in> set (sortedFree st). \<not> Fits (sizeOf w h d) f" by (simp add: set_sortedFree)
  then have "findPositionFrom w h d rc 0 (sortedFree st) = (zeroRect, 0)"
    by (rule findPositionFrom_none)
  then have "snd (G_Insert st w h d merge rc sm) = st\<lparr>freeRectangles := sortedFree st\<rparr>"
    by (simp add: G_Insert_eq FindPositionForNewNode_sortedFree zeroRect_def)
  then show ?thesis using totalVolume_mset [OF mset_sortedFree [of st]] by simp
next
  case True
  then have "\<exists>f \<in> set (sortedFree st). Fits (sizeOf w h d) f" by (simp add: set_sortedFree)
  from findPositionFrom_first [OF this, of rc 0]
  obtain j where j: "j < length (sortedFree st)"
    and fp: "findPositionFrom w h d rc 0 (sortedFree st) = (orientedNode w h d (sortedFree st ! j), j)"
    and fit: "Fits (sizeOf w h d) (sortedFree st ! j)" by auto
  let ?f = "sortedFree st ! j"
  let ?n = "orientedNode w h d ?f"
  let ?ps = "SplitFreeRectByHeuristic ?f ?n sm"
  let ?fr = "erase (sortedFree st @ ?ps) j"
  note on = orientedNode_volume_fits [OF fit assms]
  have ps: "totalVolume ?ps = volume ?f - volume ?n"
    unfolding SplitFreeRectByHeuristic_def using on by (rule split_volume)
  have "totalVolume ?fr = totalVolume (sortedFree st) - volume ?f + totalVolume ?ps"
    using j by (simp add: erase_append totalVolume_append totalVolume_erase)
  with ps have fr: "totalVolume ?fr = totalVolume (freeRectangles st) - volume ?n"
    using totalVolume_mset [OF mset_sortedFree [of st]] by simp
  show ?thesis
  proof (cases "height ?n = 0")
    case True
    then have "snd (G_Insert st w h d merge rc sm) = st\<lparr>freeRectangles := sortedFree st\<rparr>"
      by (simp add: G_Insert_eq FindPositionForNewNode_sortedFree fp)
    then show ?thesis using totalVolume_mset [OF mset_sortedFree [of st]] by simp
  next
    case False
    then have "snd (G_Insert st w h d merge rc sm) =
        st\<lparr>freeRectangles := (if merge then MergeFreeList ?fr else ?fr),
           usedRectangles := usedRectangles st @ [?n]\<rparr>"
      by (simp add: G_Insert_eq FindPositionForNewNode_sortedFree fp Let_def)
    then show ?thesis using fr
      by (simp add: MergeFreeList_volume totalVolume_append totalVolume_Cons totalVolume_Nil)
  qed
qed

lemma init_volume_balance:
  "totalVolume (freeRectangles (G_Init W H D)) + totalVolume (usedRectangles (G_Init W H D))
     = W * H * D"
  by (simp add: G_Init_def totalVolume_def volume_def)

text \<open>
  The single insert of the guillotine packer keeps the free volumes and the placed
  boxes inside the container.
\<close>

lemma insideOf_withinBin: "insideOf p f \<Longrightarrow> withinBin W H D f \<Longrightarrow> withinBin W H D p"
  unfolding insideOf_def withinBin_def by linarith

lemma mergeStep_inside:
  assumes "mergeStep a b = Some a'"
    and "positive a \<and> withinBin W H D a" and "positive b \<and> withinBin W H D b"
  shows "positive a' \<and> withinBin W H D a'"
  using assms by (auto simp: mergeStep_def positive_def withinBin_def split: if_splits)

lemma mergeInto_inside:
  "mergeInto a bs = (a', bs') \<Longrightarrow>
   list_all (\<lambda>f. positive f \<and> withinBin W H D f) (a # bs) \<Longrightarrow>
   list_all (\<lambda>f. positive f \<and> withinBin W H D f) (a' # bs')"
proof (induction bs arbitrary: a a' bs')
  case Nil
  then show ?case by simp
next
  case (Cons b bs)
  show ?case
  proof (cases "mergeStep a b")
    case None
    obtain a2 bs2 where m: "mergeInto a bs = (a2, bs2)" by (cases "mergeInto a bs")
    with None Cons.prems(1) have r: "a' = a2" "bs' = b # bs2" by simp_all
    from Cons.prems(2) have "list_all (\<lambda>f. positive f \<and> withinBin W H D f) (a # bs)" by simp
    from Cons.IH [OF m this] Cons.prems(2) show ?thesis unfolding r by simp
  next
    case (Some a1)
    with Cons.prems(1) have m: "mergeInto a1 bs = (a', bs')" by simp
    from Cons.prems(2) have ab: "positive a \<and> withinBin W H D a" "positive b \<and> withinBin W H D b"
      and bs: "list_all (\<lambda>f. positive f \<and> withinBin W H D f) bs" by simp_all
    from mergeStep_inside [OF Some ab] bs
    have "list_all (\<lambda>f. positive f \<and> withinBin W H D f) (a1 # bs)" by simp
    from Cons.IH [OF m this] show ?thesis .
  qed
qed

lemma MergeFreeList_inside:
  "list_all (\<lambda>f. positive f \<and> withinBin W H D f) fs \<Longrightarrow>
   list_all (\<lambda>f. positive f \<and> withinBin W H D f) (MergeFreeList fs)"
proof (induction fs rule: MergeFreeList.induct)
  case 1
  show ?case by simp
next
  case (2 a as)
  obtain a' as' where m: "mergeInto a as = (a', as')" by (cases "mergeInto a as")
  from mergeInto_inside [OF m "2.prems"]
  have ok: "list_all (\<lambda>f. positive f \<and> withinBin W H D f) (a' # as')" .
  with "2.IH" [OF refl m [symmetric]] m show ?case by simp
qed

lemma G_inside_sorted: "G_inside st \<Longrightarrow> G_inside (st\<lparr>freeRectangles := sortedFree st\<rparr>)"
  by (simp add: G_inside_def list_all_iff set_sortedFree)

lemma single_insert_keeps_boxes_inside:
  assumes inv: "G_inside st" and pos: "0 \<le> w" "0 \<le> h" "0 \<le> d"
  shows "G_inside (snd (G_Insert st w h d merge rc sm))"
proof (cases "\<exists>f \<in> set (freeRectangles st). Fits (sizeOf w h d) f")
  case False
  then have "\<forall>f \<in> set (sortedFree st). \<not> Fits (sizeOf w h d) f" by (simp add: set_sortedFree)
  then have "findPositionFrom w h d rc 0 (sortedFree st) = (zeroRect, 0)"
    by (rule findPositionFrom_none)
  then have "snd (G_Insert st w h d merge rc sm) = st\<lparr>freeRectangles := sortedFree st\<rparr>"
    by (simp add: G_Insert_eq FindPositionForNewNode_sortedFree zeroRect_def)
  with G_inside_sorted [OF inv] show ?thesis by simp
next
  case True
  let ?W = "binWidth st" and ?H = "binHeight st" and ?D = "binDepth st"
  let ?Q = "\<lambda>f. positive f \<and> withinBin ?W ?H ?D f"
  from True have "\<exists>f \<in> set (sortedFree st). Fits (sizeOf w h d) f" by (simp add: set_sortedFree)
  from findPositionFrom_first [OF this, of rc 0]
  obtain j where j: "j < length (sortedFree st)"
    and fp: "findPositionFrom w h d rc 0 (sortedFree st) = (orientedNode w h d (sortedFree st ! j), j)"
    and fit: "Fits (sizeOf w h d) (sortedFree st ! j)" by auto
  let ?f = "sortedFree st ! j"
  let ?n = "orientedNode w h d ?f"
  let ?ps = "SplitFreeRectByHeuristic ?f ?n sm"
  let ?fr = "erase (sortedFree st @ ?ps) j"
  note on = orientedNode_volume_fits [OF fit pos]
  have no: "x ?n = x ?f" "y ?n = y ?f" "z ?n = z ?f" by (simp_all add: orientedNode_def)
  from inv have fs: "\<forall>f \<in> set (sortedFree st). ?Q f"
    and us: "\<forall>u \<in> set (usedRectangles st). withinBin ?W ?H ?D u"
    by (simp_all add: G_inside_def list_all_iff set_sortedFree)
  from j fs have f: "?Q ?f" by simp
  have "insideOf ?n ?f" using on no by (simp add: insideOf_def)
  with f have n: "withinBin ?W ?H ?D ?n" by (auto intro: insideOf_withinBin)
  have ps: "\<forall>p \<in> set ?ps. ?Q p"
  proof
    fix p assume "p \<in> set ?ps"
    then have p: "p \<in> set (SplitFreeRectAlongAxis ?f ?n (splitHorizontalBy sm ?f ?n))"
      by (simp add: SplitFreeRectByHeuristic_def)
    from split_pieces(1,3) [OF no on(1,2,3,4,5) p] have "positive p" "insideOf p ?f" .
    with f show "?Q p" by (auto intro: insideOf_withinBin)
  qed
  have "set ?fr \<subseteq> set (sortedFree st) \<union> set ?ps"
    using set_erase_subset [of "sortedFree st @ ?ps" j] by simp
  with fs ps have fr: "list_all ?Q ?fr" by (auto simp: list_all_iff)
  then have frm: "list_all ?Q (MergeFreeList ?fr)" by (rule MergeFreeList_inside)
  show ?thesis
  proof (cases "height ?n = 0")
    case True
    then have "snd (G_Insert st w h d merge rc sm) = st\<lparr>freeRectangles := sortedFree st\<rparr>"
      by (simp add: G_Insert_eq FindPositionForNewNode_sortedFree fp)
    with G_inside_sorted [OF inv] show ?thesis by simp
  next
    case False
    then have "snd (G_Insert st w h d merge rc sm) =
        st\<lparr>freeRectangles := (if merge then MergeFreeList ?fr else ?fr),
           usedRectangles := usedRectangles st @ [?n]\<rparr>"
      by (simp add: G_Insert_eq FindPositionForNewNode_sortedFree fp Let_def)
    then show ?thesis using fr frm us n by (simp add: G_inside_def list_all_iff)
  qed
qed

lemma init_boxes_inside: "0 < W \<Longrightarrow> 0 < H \<Longrightarrow> 0 < D \<Longrightarrow> G_inside (G_Init W H D)"
  by (simp add: G_inside_def G_Init_def positive_def withinBin_def)

section \<open>Containment in the container\<close>

text \<open>
  Claim C3 says that every placed box lies inside \<open>[0,W] \<times> [0,H] \<times> [0,D]\<close>. The
  single insert of the guillotine packer keeps it so, as shown above. The max-rects
  packer tests the candidate against the extent of the free volume but anchors
  it at \<open>(supportx0, supporty0)\<close>, which need not be the corner of the free volume.
  In the container \<open>(10,10,10)\<close> without flipping, after the boxes \<open>(4,4,2)\<close> and
  \<open>(6,4,4)\<close>, the request \<open>(10,4,2)\<close> is placed at \<open>x = 4\<close> with width 10: it ends
  at \<open>x = 14\<close>, outside the container of width 10.
\<close>

theorem max_rects_box_leaves_container:
  "M_Insert (snd (M_Insert (snd (M_Insert (M_Init 10 10 10 False) 4 4 2)) 6 4 4)) 10 4 2 =
     (\<lparr>x = 4, y = 0, z = 4, width = 10, height = 4, depth = 2\<rparr>,
      \<lparr>binWidth = 10, binHeight = 10, binDepth = 10,
       usedRectangles =
         [\<lparr>x = 0, y = 0, z = 0, width = 4, height = 4, depth = 2\<rparr>,
          \<lparr>x = 4, y = 0, z = 0, width = 6, height = 4, depth = 4\<rparr>,
          \<lparr>x = 4, y = 0, z = 4, width = 10, height = 4, depth = 2\<rparr>],
       freeRectangles =
         [\<lparr>x = 0, y = 0, z = 2, width = 4, height = 10, depth = 8,
           supportx0 = 0, supportx1 = 4, supporty0 = 0, supporty1 = 4\<rparr>,
          \<lparr>x = 0, y = 4, z = 0, width = 10, height = 6, depth = 10,
           supportx0 = 0, supportx1 = 10, supporty0 = 4, supporty1 = 10\<rparr>,
          \<lparr>x = 0, y = 0, z = 6, width = 10, height = 10, depth = 4,
           supportx0 = 4, supportx1 = 14, supporty0 = 0, supporty1 = 4\<rparr>],
       binAllowFlip = False\<rparr>)"
  by (simp add: m_eval)

section \<open>Split completeness of the guillotine packer\<close>

text \<open>
  Claim C6 says that the container volume equals the free volumes plus the placed
  volumes after every operation of the guillotine packer. Initialisation and the
  single insert, with or without merging, keep the balance, as shown above. The batch
  insert compares the
  depth of box \<open>j\<close> with the depth of free volume \<open>j\<close> instead of free volume \<open>i\<close>.
  In the container \<open>(10,10,10)\<close>, after the single insert of \<open>(4,4,4)\<close>, the batch
  \<open>[(20,20,20), (4,4,8)]\<close> places the box of depth 8 into the free volume of depth 6
  above the first box: afterwards the free volumes (600 + 240) and the placed boxes
  (64 + 128) add up to 1032, not to 1000.
\<close>

theorem batch_insert_breaks_volume_balance:
  "G_InsertBatch
     (snd (G_Insert (G_Init 10 10 10) 4 4 4 False RectBestAreaFit SplitShorterLeftoverAxis))
     [\<lparr>RectSize3d.width = 20, height = 20, depth = 20\<rparr>,
      \<lparr>RectSize3d.width = 4, height = 4, depth = 8\<rparr>]
     False RectBestAreaFit SplitShorterLeftoverAxis =
   Inr (\<lparr>binWidth = 10, binHeight = 10, binDepth = 10,
         usedRectangles =
           [\<lparr>x = 0, y = 0, z = 0, width = 4, height = 4, depth = 4\<rparr>,
            \<lparr>x = 0, y = 0, z = 4, width = 4, height = 4, depth = 8\<rparr>],
         freeRectangles =
           [\<lparr>x = 0, y = 4, z = 0, width = 10, height = 6, depth = 10\<rparr>,
            \<lparr>x = 4, y = 0, z = 0, width = 6, height = 4, depth = 10\<rparr>]\<rparr>,
        [\<lparr>RectSize3d.width = 20, height = 20, depth = 20\<rparr>]) \<and>
   totalVolume [\<lparr>x = 0, y = 4, z = 0, width = 10, height = 6, depth = 10\<rparr>,
                \<lparr>x = 4, y = 0, z = 0, width = 6, height = 4, depth = 10\<rparr>]
     + totalVolume [\<lparr>x = 0, y = 0, z = 0, width = 4, height = 4, depth = 4\<rparr>,
                    \<lparr>x = 0, y = 0, z = 4, width = 4, height = 4, depth = 8\<rparr>]
     = 1032"
  by (rule conjI, code_simp, simp add: totalVolume_def volume_def)

end
